theory Spec2Isabelle
  imports Complex_Main "HOL-Library.Monad_Syntax"
begin

section \<open>Sensor data\<close>

text \<open>
  The sensor data headers (\<^verbatim>\<open>sensor_data/imu_data.hpp\<close> and its siblings) are not among the
  sources; the flow reads the fields \<^verbatim>\<open>time\<close>, \<^verbatim>\<open>pose\<close> and \<^verbatim>\<open>vel\<close> only. Timestamps are
  C++ \<^verbatim>\<open>double\<close>s and are modelled as real numbers: a subtraction is exact and there is no
  NaN. A rigid transform (\<^verbatim>\<open>Eigen::Matrix4f\<close>) is kept as its two blocks,
  \<^verbatim>\<open>block<3,3>(0,0)\<close> and \<^verbatim>\<open>block<3,1>(0,3)\<close>.
\<close>

type_synonym vec3 = "real \<times> real \<times> real"

record Matrix4f =
  linear :: "vec3 \<times> vec3 \<times> vec3"
  translation :: vec3

record Stamped =
  time :: real

record IMUData = Stamped +
  linear_acceleration :: vec3
  angular_velocity :: vec3

record CloudData = Stamped +
  cloud_ptr :: "vec3 list"

record PoseData = Stamped +
  pose :: Matrix4f
  vel :: vec3

definition norm3 :: "vec3 \<Rightarrow> real" where
  "norm3 v = (case v of (x, y, z) \<Rightarrow> sqrt (x * x + y * y + z * z))"

definition minus3 :: "vec3 \<Rightarrow> vec3 \<Rightarrow> vec3" where
  "minus3 a b = (case a of (x, y, z) \<Rightarrow> case b of (u, v, w) \<Rightarrow> (x - u, y - v, z - w))"

section \<open>The filter as the flow sees it\<close>

text \<open>
  \<^verbatim>\<open>filtering.cpp\<close> is not among the sources. The flow is therefore taken over an arbitrary
  filter: a state type \<open>'f\<close> and the member functions that \<^verbatim>\<open>filtering_flow.cpp\<close> calls
  through \<^verbatim>\<open>filtering_ptr_\<close>. A member returning \<^verbatim>\<open>bool\<close> and changing the filter returns the
  pair of both. \<^verbatim>\<open>Correct\<close> takes its third argument, the laser pose, by reference and
  returns its new value as well. \<^verbatim>\<open>GetGlobalMap\<close> may change the filter (the flag behind
  \<^verbatim>\<open>HasNewGlobalMap\<close>); the other getters only read it.
\<close>

record 'f Filtering =
  Filtering_Init_scan :: "CloudData \<Rightarrow> vec3 \<Rightarrow> IMUData \<Rightarrow> 'f \<Rightarrow> bool \<times> 'f"
  Filtering_Init_pose :: "Matrix4f \<Rightarrow> vec3 \<Rightarrow> IMUData \<Rightarrow> 'f \<Rightarrow> bool \<times> 'f"
  Filtering_Update :: "IMUData \<Rightarrow> 'f \<Rightarrow> bool \<times> 'f"
  Filtering_Correct :: "IMUData \<Rightarrow> CloudData \<Rightarrow> Matrix4f \<Rightarrow> 'f \<Rightarrow> bool \<times> Matrix4f \<times> 'f"
  Filtering_HasInited :: "'f \<Rightarrow> bool"
  Filtering_GetPose :: "'f \<Rightarrow> Matrix4f"
  Filtering_GetOdometry :: "'f \<Rightarrow> Matrix4f \<times> vec3"
  Filtering_HasNewGlobalMap :: "'f \<Rightarrow> bool"
  Filtering_GetGlobalMap :: "'f \<Rightarrow> 'f"
  Filtering_HasNewLocalMap :: "'f \<Rightarrow> bool"

section \<open>The flow's state\<close>

text \<open>
  What the flow sends to its publishers and to the log, and each call it makes on the filter
  or the transform listener, is recorded in order.
\<close>

datatype event =
    TFLookup
  | GlobalMapPublished
  | LocalMapPublished
  | InitScanCalled CloudData vec3 IMUData bool
  | InitPoseCalled Matrix4f vec3 IMUData
  | LogInitSucceeded real
  | LogInitFailed
  | UpdateCalled IMUData bool
  | CorrectCalled IMUData CloudData bool
  | LaserOdomPublished Matrix4f real
  | CurrentScanPublished
  | FusedTFSent Matrix4f real
  | FusedOdomPublished Matrix4f vec3 real

text \<open>
  The members of \<^verbatim>\<open>FilteringFlow\<close>, without the trailing underscore of the C++ names. The
  function-local \<^verbatim>\<open>static bool calibration_received\<close> of \<^verbatim>\<open>InitCalibration\<close> lives as long
  as the process and is a field here. A \<^verbatim>\<open>std::deque\<close> is a list, its front the head.
\<close>

record 'f FilteringFlow =
  imu_raw_data_buff :: "IMUData list"
  cloud_data_buff :: "CloudData list"
  gnss_data_buff :: "PoseData list"
  imu_synced_data_buff :: "IMUData list"
  current_imu_raw_data :: IMUData
  current_cloud_data :: CloudData
  current_gnss_data :: PoseData
  current_imu_synced_data :: IMUData
  calibration_received :: bool
  lidar_to_imu :: Matrix4f
  laser_pose :: Matrix4f
  fused_pose :: Matrix4f
  fused_vel :: vec3
  filtering_ptr :: 'f
  events :: "event list"

section \<open>Validity checks\<close>

text \<open>
  \<^verbatim>\<open>front()\<close> and \<^verbatim>\<open>pop_front()\<close> on an empty deque are undefined behaviour: the model
  returns \<open>None\<close> there.
\<close>

definition ValidIMUData :: "'f FilteringFlow \<Rightarrow> (bool \<times> 'f FilteringFlow) option" where
  "ValidIMUData s =
     (case imu_raw_data_buff s of
        [] \<Rightarrow> None
      | x # xs \<Rightarrow> Some (True, s\<lparr>current_imu_raw_data := x, imu_raw_data_buff := xs\<rparr>))"

text \<open>
  \<^verbatim>\<open>diff_filter_time\<close> (the cloud time minus the filter's \<^verbatim>\<open>GetTime()\<close>) is computed in the
  source and never read; it is left out.
\<close>

definition ValidLidarData :: "'f FilteringFlow \<Rightarrow> (bool \<times> 'f FilteringFlow) option" where
  "ValidLidarData s =
     (case (cloud_data_buff s, gnss_data_buff s, imu_synced_data_buff s) of
        (c # cs, g # gs, i # js) \<Rightarrow>
          let s1 = s\<lparr>current_cloud_data := c, current_gnss_data := g,
                     current_imu_synced_data := i\<rparr>;
              diff_gnss_time = time (current_cloud_data s1) - time (current_gnss_data s1);
              diff_imu_time = time (current_cloud_data s1) - time (current_imu_synced_data s1)
          in
            if diff_gnss_time < - 0.05 \<or> diff_imu_time < - 0.05 then
              Some (False, s1\<lparr>cloud_data_buff := cs\<rparr>)
            else if diff_gnss_time > 0.05 then
              Some (False, s1\<lparr>gnss_data_buff := gs\<rparr>)
            else if diff_imu_time > 0.05 then
              Some (False, s1\<lparr>imu_synced_data_buff := js\<rparr>)
            else
              Some (True, s1\<lparr>cloud_data_buff := cs, gnss_data_buff := gs,
                             imu_synced_data_buff := js\<rparr>)
      | _ \<Rightarrow> None)"

section \<open>What one tick brings from outside\<close>

text \<open>
  The subscribers, the transform listener and the publishers' subscriber counts are outside
  the sources. One call of \<^verbatim>\<open>Run\<close> sees: what \<^verbatim>\<open>TFListener::LookupData\<close> answers if it is
  asked (a transform, or nothing yet), whether the two map publishers have subscribers, and
  the samples each subscriber has received since the last tick, in arrival order.
\<close>

record tick =
  tf_lookup :: "Matrix4f option"
  global_map_has_subscribers :: bool
  local_map_has_subscribers :: bool
  new_imu_raw :: "IMUData list"
  new_cloud :: "CloudData list"
  new_gnss :: "PoseData list"
  new_imu_synced :: "IMUData list"

section \<open>The flow\<close>

text \<open>
  \<^verbatim>\<open>ParseData\<close> appends the subscriber's new samples at the back of the buffer.
  \<^verbatim>\<open>ReadData\<close> always returns true; the model returns the state only.
\<close>

definition ReadData :: "tick \<Rightarrow> 'f FilteringFlow \<Rightarrow> 'f FilteringFlow" where
  "ReadData inp s =
     s\<lparr>imu_raw_data_buff := imu_raw_data_buff s @ new_imu_raw inp,
       cloud_data_buff := cloud_data_buff s @ new_cloud inp,
       gnss_data_buff := gnss_data_buff s @ new_gnss inp,
       imu_synced_data_buff := imu_synced_data_buff s @ new_imu_synced inp\<rparr>"

definition HasInited :: "'f Filtering \<Rightarrow> 'f FilteringFlow \<Rightarrow> bool" where
  "HasInited F s = Filtering_HasInited F (filtering_ptr s)"

text \<open>
  Modelled from the spec: \<^verbatim>\<open>HasIMUData\<close> and \<^verbatim>\<open>HasLidarData\<close> are declared in
  \<^verbatim>\<open>filtering_flow.hpp\<close>, which is not among the sources. The first guards every
  \<^verbatim>\<open>front()\<close> of the raw inertial buffer; the second guards \<^verbatim>\<open>ValidLidarData\<close>, which reads
  the fronts of the three synced buffers ("a valid, time-aligned absolute/lidar/synced-inertial
  triple is available").
\<close>

definition HasIMUData :: "'f FilteringFlow \<Rightarrow> bool" where
  "HasIMUData s = (imu_raw_data_buff s \<noteq> [])"

definition HasLidarData :: "'f FilteringFlow \<Rightarrow> bool" where
  "HasLidarData s =
     (cloud_data_buff s \<noteq> [] \<and> gnss_data_buff s \<noteq> [] \<and> imu_synced_data_buff s \<noteq> [])"

definition HasData :: "'f Filtering \<Rightarrow> 'f FilteringFlow \<Rightarrow> bool" where
  "HasData F s =
     (if \<not> HasInited F s then
        (if cloud_data_buff s = [] \<or> gnss_data_buff s = [] \<or> imu_synced_data_buff s = []
         then False else True)
      else
        (if imu_raw_data_buff s = [] \<and>
            (cloud_data_buff s = [] \<or> gnss_data_buff s = [] \<or> imu_synced_data_buff s = [])
         then False else True))"

text \<open>
  \<^verbatim>\<open>LookupData\<close> is asked only while \<^verbatim>\<open>calibration_received\<close> is false; its answer for this
  tick is the first argument. A failed lookup leaves \<^verbatim>\<open>lidar_to_imu_\<close> as it was.
\<close>

definition InitCalibration ::
  "Matrix4f option \<Rightarrow> 'f FilteringFlow \<Rightarrow> bool \<times> 'f FilteringFlow" where
  "InitCalibration lk s =
     (if \<not> calibration_received s then
        (let s1 = s\<lparr>events := events s @ [TFLookup]\<rparr> in
         case lk of
           Some m \<Rightarrow> (True, s1\<lparr>lidar_to_imu := m, calibration_received := True\<rparr>)
         | None \<Rightarrow> (calibration_received s1, s1))
      else (calibration_received s, s))"

definition PublishGlobalMap :: "'f Filtering \<Rightarrow> tick \<Rightarrow> 'f FilteringFlow \<Rightarrow> bool \<times> 'f FilteringFlow" where
  "PublishGlobalMap F inp s =
     (if Filtering_HasNewGlobalMap F (filtering_ptr s) \<and> global_map_has_subscribers inp then
        (True, s\<lparr>filtering_ptr := Filtering_GetGlobalMap F (filtering_ptr s),
                 events := events s @ [GlobalMapPublished]\<rparr>)
      else (False, s))"

definition PublishLocalMap :: "'f Filtering \<Rightarrow> tick \<Rightarrow> 'f FilteringFlow \<Rightarrow> bool \<times> 'f FilteringFlow" where
  "PublishLocalMap F inp s =
     (if Filtering_HasNewLocalMap F (filtering_ptr s) \<and> local_map_has_subscribers inp then
        (True, s\<lparr>events := events s @ [LocalMapPublished]\<rparr>)
      else (False, s))"

text \<open>\<^verbatim>\<open>PublishLidarOdom\<close> and \<^verbatim>\<open>PublishFusionOdom\<close> always return true.\<close>

definition PublishLidarOdom :: "'f FilteringFlow \<Rightarrow> 'f FilteringFlow" where
  "PublishLidarOdom s =
     s\<lparr>events := events s @
         [LaserOdomPublished (laser_pose s) (time (current_cloud_data s)),
          CurrentScanPublished]\<rparr>"

definition PublishFusionOdom :: "'f Filtering \<Rightarrow> 'f FilteringFlow \<Rightarrow> 'f FilteringFlow" where
  "PublishFusionOdom F s =
     (case Filtering_GetOdometry F (filtering_ptr s) of
        (p, v) \<Rightarrow>
          s\<lparr>fused_pose := p, fused_vel := v,
            events := events s @
              [FusedTFSent p (time (current_imu_raw_data s)),
               FusedOdomPublished p v (time (current_imu_raw_data s))]\<rparr>)"

definition UpdateLocalization :: "'f Filtering \<Rightarrow> 'f FilteringFlow \<Rightarrow> bool \<times> 'f FilteringFlow" where
  "UpdateLocalization F s =
     (case Filtering_Update F (current_imu_raw_data s) (filtering_ptr s) of
        (ok, f) \<Rightarrow>
          let s1 = s\<lparr>filtering_ptr := f,
                     events := events s @ [UpdateCalled (current_imu_raw_data s) ok]\<rparr>
          in if ok then (True, PublishFusionOdom F s1) else (False, s1))"

definition CorrectLocalization :: "'f Filtering \<Rightarrow> 'f FilteringFlow \<Rightarrow> bool \<times> 'f FilteringFlow" where
  "CorrectLocalization F s =
     (case Filtering_Correct F (current_imu_synced_data s) (current_cloud_data s)
             (laser_pose s) (filtering_ptr s) of
        (is_fusion_succeeded, lp, f) \<Rightarrow>
          let s1 = s\<lparr>filtering_ptr := f, laser_pose := lp,
                     events := events s @
                       [CorrectCalled (current_imu_synced_data s) (current_cloud_data s)
                          is_fusion_succeeded]\<rparr>;
              s2 = PublishLidarOdom s1
          in if is_fusion_succeeded then (True, PublishFusionOdom F s2) else (False, s2))"

text \<open>
  The loop at the end of \<^verbatim>\<open>InitLocalization\<close>: pop the front of the raw inertial buffer
  while there is one and it is older than the synced inertial sample.
\<close>

fun discard_older :: "real \<Rightarrow> IMUData list \<Rightarrow> IMUData list" where
  "discard_older t [] = []"
| "discard_older t (x # xs) = (if time x < t then discard_older t xs else x # xs)"

definition InitLocalization :: "'f Filtering \<Rightarrow> 'f FilteringFlow \<Rightarrow> bool \<times> 'f FilteringFlow" where
  "InitLocalization F s =
     (let init_vel = vel (current_gnss_data s) in
      case Filtering_Init_scan F (current_cloud_data s) init_vel (current_imu_synced_data s)
             (filtering_ptr s) of
        (ok, f1) \<Rightarrow>
          let s1 = s\<lparr>filtering_ptr := f1,
                     events := events s @
                       [InitScanCalled (current_cloud_data s) init_vel
                          (current_imu_synced_data s) ok]\<rparr>;
              s2 =
                (if ok then
                   (let init_pose = Filtering_GetPose F (filtering_ptr s1);
                        deviation =
                          norm3 (minus3 (translation init_pose)
                                   (translation (pose (current_gnss_data s1))))
                    in s1\<lparr>events := events s1 @ [LogInitSucceeded deviation]\<rparr>)
                 else
                   (case Filtering_Init_pose F (pose (current_gnss_data s1)) init_vel
                           (current_imu_synced_data s1) (filtering_ptr s1) of
                      (_, f2) \<Rightarrow>
                        s1\<lparr>filtering_ptr := f2,
                           events := events s1 @
                             [InitPoseCalled (pose (current_gnss_data s1)) init_vel
                                (current_imu_synced_data s1),
                              LogInitFailed]\<rparr>))
          in (True,
              s2\<lparr>imu_raw_data_buff :=
                   discard_older (time (current_imu_synced_data s2)) (imu_raw_data_buff s2)\<rparr>))"

section \<open>The loops of Run\<close>

text \<open>
  The inner loop of \<^verbatim>\<open>Run\<close>:
  \<^verbatim>\<open>while (HasIMUData() && ValidIMUData() && current_imu_raw_data_.time < current_cloud_data_.time)
    UpdateLocalization();\<close>
  The conjunction is evaluated left to right, so \<^verbatim>\<open>ValidIMUData\<close> has popped the front
  before the times are compared.
\<close>

function imu_loop :: "'f Filtering \<Rightarrow> 'f FilteringFlow \<Rightarrow> 'f FilteringFlow option" where
  "imu_loop F s =
     (if HasIMUData s then
        (case ValidIMUData s of
           None \<Rightarrow> None
         | Some (v, s1) \<Rightarrow>
             if v \<and> time (current_imu_raw_data s1) < time (current_cloud_data s1)
             then imu_loop F (snd (UpdateLocalization F s1))
             else Some s1)
      else Some s)"
  by pat_completeness auto
termination
  by (relation "measure (\<lambda>(F, s). length (imu_raw_data_buff s))")
     (auto simp: ValidIMUData_def UpdateLocalization_def PublishFusionOdom_def Let_def
           split: list.splits prod.splits if_splits)

text \<open>
  The branch of \<^verbatim>\<open>Run\<close> taken when \<^verbatim>\<open>ValidLidarData\<close> has returned true on an initialised
  filter: the inner loop, the \<^verbatim>\<open>push_back\<close> of the sample that ended it, and
  \<^verbatim>\<open>CorrectLocalization\<close>.
\<close>

definition propagate_and_correct ::
  "'f Filtering \<Rightarrow> 'f FilteringFlow \<Rightarrow> 'f FilteringFlow option" where
  "propagate_and_correct F s =
     do {
       s2 \<leftarrow>
         (if HasIMUData s then
            do {
              s1 \<leftarrow> imu_loop F s;
              Some (if time (current_imu_raw_data s1) \<ge> time (current_cloud_data s1)
                    then s1\<lparr>imu_raw_data_buff :=
                              imu_raw_data_buff s1 @ [current_imu_raw_data s1]\<rparr>
                    else s1)
            }
          else Some s);
       Some (snd (CorrectLocalization F s2))
     }"

text \<open>
  The first half of that branch on its own, lines 69 to 82: the state in which
  \<^verbatim>\<open>CorrectLocalization\<close> is then called.
\<close>

definition drain_and_retain :: "'f Filtering \<Rightarrow> 'f FilteringFlow \<Rightarrow> 'f FilteringFlow option" where
  "drain_and_retain F s =
     (if HasIMUData s then
        do {
          s1 \<leftarrow> imu_loop F s;
          Some (if time (current_imu_raw_data s1) \<ge> time (current_cloud_data s1)
                then s1\<lparr>imu_raw_data_buff :=
                          imu_raw_data_buff s1 @ [current_imu_raw_data s1]\<rparr>
                else s1)
        }
      else Some s)"

text \<open>One pass through the body of \<^verbatim>\<open>while (HasData())\<close>.\<close>

definition Run_body :: "'f Filtering \<Rightarrow> 'f FilteringFlow \<Rightarrow> 'f FilteringFlow option" where
  "Run_body F s =
     (if \<not> HasInited F s then
        do {
          (v, s1) \<leftarrow> ValidLidarData s;
          Some (if v then snd (InitLocalization F s1) else s1)
        }
      else
        do {
          s3 \<leftarrow>
            (if HasLidarData s then
               do {
                 (v, s1) \<leftarrow> ValidLidarData s;
                 if v then propagate_and_correct F s1 else Some s1
               }
             else Some s);
          if HasIMUData s3 then
            do {
              (v, s4) \<leftarrow> ValidIMUData s3;
              Some (if v then snd (UpdateLocalization F s4) else s4)
            }
          else Some s3
        })"

definition buffered :: "'f FilteringFlow \<Rightarrow> nat" where
  "buffered s =
     length (imu_raw_data_buff s) + length (cloud_data_buff s) +
     length (gnss_data_buff s) + length (imu_synced_data_buff s)"

section \<open>What each step leaves alone\<close>

declare imu_loop.simps [simp del]

lemma PublishFusionOdom_frame:
  "imu_raw_data_buff (PublishFusionOdom F s) = imu_raw_data_buff s"
  "cloud_data_buff (PublishFusionOdom F s) = cloud_data_buff s"
  "gnss_data_buff (PublishFusionOdom F s) = gnss_data_buff s"
  "imu_synced_data_buff (PublishFusionOdom F s) = imu_synced_data_buff s"
  "current_imu_raw_data (PublishFusionOdom F s) = current_imu_raw_data s"
  "current_cloud_data (PublishFusionOdom F s) = current_cloud_data s"
  "current_gnss_data (PublishFusionOdom F s) = current_gnss_data s"
  "current_imu_synced_data (PublishFusionOdom F s) = current_imu_synced_data s"
  "calibration_received (PublishFusionOdom F s) = calibration_received s"
  "lidar_to_imu (PublishFusionOdom F s) = lidar_to_imu s"
  "filtering_ptr (PublishFusionOdom F s) = filtering_ptr s"
  "laser_pose (PublishFusionOdom F s) = laser_pose s"
  by (simp_all add: PublishFusionOdom_def split: prod.splits)

lemma UpdateLocalization_frame:
  "imu_raw_data_buff (snd (UpdateLocalization F s)) = imu_raw_data_buff s"
  "cloud_data_buff (snd (UpdateLocalization F s)) = cloud_data_buff s"
  "gnss_data_buff (snd (UpdateLocalization F s)) = gnss_data_buff s"
  "imu_synced_data_buff (snd (UpdateLocalization F s)) = imu_synced_data_buff s"
  "current_imu_raw_data (snd (UpdateLocalization F s)) = current_imu_raw_data s"
  "current_cloud_data (snd (UpdateLocalization F s)) = current_cloud_data s"
  "current_gnss_data (snd (UpdateLocalization F s)) = current_gnss_data s"
  "current_imu_synced_data (snd (UpdateLocalization F s)) = current_imu_synced_data s"
  "calibration_received (snd (UpdateLocalization F s)) = calibration_received s"
  "lidar_to_imu (snd (UpdateLocalization F s)) = lidar_to_imu s"
  "laser_pose (snd (UpdateLocalization F s)) = laser_pose s"
  by (simp_all add: UpdateLocalization_def PublishFusionOdom_frame Let_def split: prod.splits)

lemma CorrectLocalization_frame:
  "imu_raw_data_buff (snd (CorrectLocalization F s)) = imu_raw_data_buff s"
  "cloud_data_buff (snd (CorrectLocalization F s)) = cloud_data_buff s"
  "gnss_data_buff (snd (CorrectLocalization F s)) = gnss_data_buff s"
  "imu_synced_data_buff (snd (CorrectLocalization F s)) = imu_synced_data_buff s"
  "current_imu_raw_data (snd (CorrectLocalization F s)) = current_imu_raw_data s"
  "current_cloud_data (snd (CorrectLocalization F s)) = current_cloud_data s"
  "current_gnss_data (snd (CorrectLocalization F s)) = current_gnss_data s"
  "current_imu_synced_data (snd (CorrectLocalization F s)) = current_imu_synced_data s"
  "calibration_received (snd (CorrectLocalization F s)) = calibration_received s"
  "lidar_to_imu (snd (CorrectLocalization F s)) = lidar_to_imu s"
  by (simp_all add: CorrectLocalization_def PublishFusionOdom_frame PublishLidarOdom_def Let_def
        split: prod.splits)

lemma discard_older_dropWhile: "discard_older t xs = dropWhile (\<lambda>x. time x < t) xs"
  by (induction xs) auto

lemma length_discard_older: "length (discard_older t xs) \<le> length xs"
  by (simp add: discard_older_dropWhile length_dropWhile_le)

lemma InitLocalization_frame:
  "cloud_data_buff (snd (InitLocalization F s)) = cloud_data_buff s"
  "gnss_data_buff (snd (InitLocalization F s)) = gnss_data_buff s"
  "imu_synced_data_buff (snd (InitLocalization F s)) = imu_synced_data_buff s"
  "current_imu_raw_data (snd (InitLocalization F s)) = current_imu_raw_data s"
  "current_cloud_data (snd (InitLocalization F s)) = current_cloud_data s"
  "current_gnss_data (snd (InitLocalization F s)) = current_gnss_data s"
  "current_imu_synced_data (snd (InitLocalization F s)) = current_imu_synced_data s"
  "calibration_received (snd (InitLocalization F s)) = calibration_received s"
  "lidar_to_imu (snd (InitLocalization F s)) = lidar_to_imu s"
  by (simp_all add: InitLocalization_def Let_def split: prod.splits)

lemma InitLocalization_raw:
  "imu_raw_data_buff (snd (InitLocalization F s)) =
     discard_older (time (current_imu_synced_data s)) (imu_raw_data_buff s)"
  by (simp add: InitLocalization_def Let_def split: prod.splits)

lemma ValidLidarData_buffered:
  assumes "ValidLidarData s = Some (v, s1)"
  shows "imu_raw_data_buff s1 = imu_raw_data_buff s"
    and "length (cloud_data_buff s1) + length (gnss_data_buff s1) +
         length (imu_synced_data_buff s1) <
         length (cloud_data_buff s) + length (gnss_data_buff s) +
         length (imu_synced_data_buff s)"
    and "calibration_received s1 = calibration_received s"
    and "lidar_to_imu s1 = lidar_to_imu s"
    and "filtering_ptr s1 = filtering_ptr s"
    and "events s1 = events s"
  using assms
  by (auto simp: ValidLidarData_def Let_def split: list.splits if_splits)

lemma ValidIMUData_Some:
  "ValidIMUData s = Some (v, s1) \<longleftrightarrow>
     (\<exists>x xs. imu_raw_data_buff s = x # xs \<and> v \<and>
        s1 = s\<lparr>current_imu_raw_data := x, imu_raw_data_buff := xs\<rparr>)"
  by (auto simp: ValidIMUData_def split: list.splits)

lemma imu_loop_frame:
  "imu_loop F s = Some s1 \<Longrightarrow>
     length (imu_raw_data_buff s1) \<le> length (imu_raw_data_buff s) \<and>
     (HasIMUData s \<longrightarrow> length (imu_raw_data_buff s1) < length (imu_raw_data_buff s)) \<and>
     cloud_data_buff s1 = cloud_data_buff s \<and>
     gnss_data_buff s1 = gnss_data_buff s \<and>
     imu_synced_data_buff s1 = imu_synced_data_buff s \<and>
     current_cloud_data s1 = current_cloud_data s \<and>
     current_gnss_data s1 = current_gnss_data s \<and>
     current_imu_synced_data s1 = current_imu_synced_data s \<and>
     calibration_received s1 = calibration_received s \<and>
     lidar_to_imu s1 = lidar_to_imu s"
proof (induction F s arbitrary: s1 rule: imu_loop.induct)
  case (1 F s)
  show ?case
  proof (cases "HasIMUData s")
    case False
    with "1.prems" show ?thesis by (simp add: imu_loop.simps[of F s])
  next
    case True
    then obtain x xs where xs: "imu_raw_data_buff s = x # xs"
      by (auto simp: HasIMUData_def neq_Nil_conv)
    define s0 where "s0 = s\<lparr>current_imu_raw_data := x, imu_raw_data_buff := xs\<rparr>"
    have v: "ValidIMUData s = Some (True, s0)"
      by (simp add: ValidIMUData_def xs s0_def)
    show ?thesis
    proof (cases "time (current_imu_raw_data s0) < time (current_cloud_data s0)")
      case False
      with "1.prems" True v have "s1 = s0" by (simp add: imu_loop.simps[of F s])
      then show ?thesis using True by (simp add: s0_def xs)
    next
      case lt: True
      with "1.prems" True v have "imu_loop F (snd (UpdateLocalization F s0)) = Some s1"
        by (simp add: imu_loop.simps[of F s])
      from "1.IH"[OF True v refl _ this] lt
      show ?thesis by (simp add: UpdateLocalization_frame s0_def xs)
    qed
  qed
qed

lemma imu_loop_total: "\<exists>s1. imu_loop F s = Some s1"
proof (induction F s rule: imu_loop.induct)
  case (1 F s)
  show ?case
  proof (cases "imu_raw_data_buff s")
    case Nil
    then show ?thesis by (simp add: HasIMUData_def imu_loop.simps[of F s])
  next
    case (Cons x xs)
    define s0 where "s0 = s\<lparr>current_imu_raw_data := x, imu_raw_data_buff := xs\<rparr>"
    have h: "HasIMUData s" by (simp add: HasIMUData_def Cons)
    have v: "ValidIMUData s = Some (True, s0)"
      by (simp add: ValidIMUData_def Cons s0_def)
    show ?thesis
    proof (cases "time (current_imu_raw_data s0) < time (current_cloud_data s0)")
      case False
      then show ?thesis using h v by (simp add: imu_loop.simps[of F s])
    next
      case True
      from "1.IH"[OF h v refl] True obtain s1 where
        "imu_loop F (snd (UpdateLocalization F s0)) = Some s1" by auto
      then show ?thesis using h v True by (simp add: imu_loop.simps[of F s])
    qed
  qed
qed


lemma ValidLidarData_total: "HasLidarData s \<Longrightarrow> \<exists>v s1. ValidLidarData s = Some (v, s1)"
  by (auto simp: HasLidarData_def ValidLidarData_def Let_def neq_Nil_conv)

lemma propagate_and_correct_total: "\<exists>s'. propagate_and_correct F s = Some s'"
proof -
  obtain s1 where "imu_loop F s = Some s1" using imu_loop_total by blast
  then show ?thesis by (simp add: propagate_and_correct_def)
qed

lemma propagate_and_correct_frame:
  assumes "propagate_and_correct F s = Some s'"
  shows "length (imu_raw_data_buff s') \<le> length (imu_raw_data_buff s)"
    and "cloud_data_buff s' = cloud_data_buff s"
    and "gnss_data_buff s' = gnss_data_buff s"
    and "imu_synced_data_buff s' = imu_synced_data_buff s"
    and "calibration_received s' = calibration_received s"
    and "lidar_to_imu s' = lidar_to_imu s"
proof -
  show "length (imu_raw_data_buff s') \<le> length (imu_raw_data_buff s)"
    using assms
    by (auto simp: propagate_and_correct_def CorrectLocalization_frame
          split: if_splits bind_splits dest!: imu_loop_frame)
  show "cloud_data_buff s' = cloud_data_buff s"
    using assms
    by (auto simp: propagate_and_correct_def CorrectLocalization_frame
          split: if_splits bind_splits dest!: imu_loop_frame)
  show "gnss_data_buff s' = gnss_data_buff s"
    using assms
    by (auto simp: propagate_and_correct_def CorrectLocalization_frame
          split: if_splits bind_splits dest!: imu_loop_frame)
  show "imu_synced_data_buff s' = imu_synced_data_buff s"
    using assms
    by (auto simp: propagate_and_correct_def CorrectLocalization_frame
          split: if_splits bind_splits dest!: imu_loop_frame)
  show "calibration_received s' = calibration_received s"
    using assms
    by (auto simp: propagate_and_correct_def CorrectLocalization_frame
          split: if_splits bind_splits dest!: imu_loop_frame)
  show "lidar_to_imu s' = lidar_to_imu s"
    using assms
    by (auto simp: propagate_and_correct_def CorrectLocalization_frame
          split: if_splits bind_splits dest!: imu_loop_frame)
qed

lemma lidar_step_frame:
  assumes "HasLidarData s"
    and "(ValidLidarData s \<bind> (\<lambda>(v, s1). if v then propagate_and_correct F s1 else Some s1)) = Some s3"
  shows "buffered s3 < buffered s"
    and "calibration_received s3 = calibration_received s"
    and "lidar_to_imu s3 = lidar_to_imu s"
proof -
  from assms obtain v s1 where v: "ValidLidarData s = Some (v, s1)"
    and r: "(if v then propagate_and_correct F s1 else Some s1) = Some s3"
    by (auto split: bind_splits)
  note b = ValidLidarData_buffered[OF v]
  show "buffered s3 < buffered s"
  proof (cases v)
    case True
    with r have p: "propagate_and_correct F s1 = Some s3" by simp
    from propagate_and_correct_frame[OF p] b show ?thesis
      by (simp add: buffered_def)
  next
    case False
    with r b show ?thesis by (simp add: buffered_def)
  qed
  show "calibration_received s3 = calibration_received s"
    using r b propagate_and_correct_frame[of F s1 s3] by (cases v) simp_all
  show "lidar_to_imu s3 = lidar_to_imu s"
    using r b propagate_and_correct_frame[of F s1 s3] by (cases v) simp_all
qed

lemma imu_step_frame:
  assumes "(if HasIMUData s3 then
              ValidIMUData s3 \<bind> (\<lambda>(v, s4). Some (if v then snd (UpdateLocalization F s4) else s4))
            else Some s3) = Some s'"
  shows "buffered s' \<le> buffered s3"
    and "HasIMUData s3 \<Longrightarrow> buffered s' < buffered s3"
    and "calibration_received s' = calibration_received s3"
    and "lidar_to_imu s' = lidar_to_imu s3"
  using assms
  by (auto simp: buffered_def UpdateLocalization_frame ValidIMUData_Some
        split: if_splits bind_splits)

lemma Run_body_decreases:
  assumes "HasData F s" and "Run_body F s = Some s'"
  shows "buffered s' < buffered s"
proof (cases "HasInited F s")
  case False
  with assms(2) obtain v s1 where v: "ValidLidarData s = Some (v, s1)"
    and s': "s' = (if v then snd (InitLocalization F s1) else s1)"
    by (auto simp: Run_body_def split: bind_splits)
  from ValidLidarData_buffered[OF v] s' show ?thesis
    using length_discard_older[of "time (current_imu_synced_data s1)" "imu_raw_data_buff s1"]
    by (auto simp: buffered_def InitLocalization_frame InitLocalization_raw)
next
  case True
  show ?thesis
  proof (cases "HasLidarData s")
    case l: True
    from assms(2) True l obtain s3 where
      a: "(ValidLidarData s \<bind> (\<lambda>(v, s1). if v then propagate_and_correct F s1 else Some s1)) = Some s3"
      and b: "(if HasIMUData s3 then
              ValidIMUData s3 \<bind> (\<lambda>(v, s4). Some (if v then snd (UpdateLocalization F s4) else s4))
            else Some s3) = Some s'"
      by (auto simp: Run_body_def split: bind_splits)
    from lidar_step_frame(1)[OF l a] imu_step_frame(1)[OF b] show ?thesis by simp
  next
    case l: False
    with assms(1) True have h: "HasIMUData s"
      by (auto simp: HasData_def HasLidarData_def HasIMUData_def split: if_splits)
    from assms(2) True l have
      b: "(if HasIMUData s then
              ValidIMUData s \<bind> (\<lambda>(v, s4). Some (if v then snd (UpdateLocalization F s4) else s4))
            else Some s) = Some s'"
      by (auto simp: Run_body_def split: bind_splits)
    from imu_step_frame(2)[OF b h] show ?thesis .
  qed
qed

lemma Run_body_total:
  assumes "HasData F s"
  shows "\<exists>s'. Run_body F s = Some s'"
proof (cases "HasInited F s")
  case False
  with assms have "HasLidarData s"
    by (auto simp: HasData_def HasLidarData_def split: if_splits)
  from ValidLidarData_total[OF this] False show ?thesis
    by (auto simp: Run_body_def)
next
  case True
  have "\<exists>s3. (if HasLidarData s then
               ValidLidarData s \<bind> (\<lambda>(v, s1). if v then propagate_and_correct F s1 else Some s1)
             else Some s) = Some s3"
  proof (cases "HasLidarData s")
    case l: True
    from ValidLidarData_total[OF l] obtain v s1 where v: "ValidLidarData s = Some (v, s1)"
      by blast
    from propagate_and_correct_total[of F s1] v l show ?thesis by (cases v) auto
  qed simp
  then obtain s3 where s3: "(if HasLidarData s then
               ValidLidarData s \<bind> (\<lambda>(v, s1). if v then propagate_and_correct F s1 else Some s1)
             else Some s) = Some s3" by blast
  have "\<exists>s'. (if HasIMUData s3 then
              ValidIMUData s3 \<bind> (\<lambda>(v, s4). Some (if v then snd (UpdateLocalization F s4) else s4))
            else Some s3) = Some s'"
    by (auto simp: HasIMUData_def ValidIMUData_def neq_Nil_conv)
  with s3 True show ?thesis by (auto simp: Run_body_def)
qed

text \<open>
  The outer loop, \<^verbatim>\<open>while (HasData()) { ... }\<close>. Every pass takes at least one sample out
  of the four buffers, so the loop ends.
\<close>

function Run_loop :: "'f Filtering \<Rightarrow> 'f FilteringFlow \<Rightarrow> 'f FilteringFlow option" where
  "Run_loop F s =
     (if HasData F s then
        (case Run_body F s of None \<Rightarrow> None | Some s' \<Rightarrow> Run_loop F s')
      else Some s)"
  by pat_completeness auto
termination
  by (relation "measure (\<lambda>(F, s). buffered s)") (auto simp: Run_body_decreases)

declare Run_loop.simps [simp del]

definition Run :: "'f Filtering \<Rightarrow> tick \<Rightarrow> 'f FilteringFlow \<Rightarrow> (bool \<times> 'f FilteringFlow) option" where
  "Run F inp s =
     (case InitCalibration (tf_lookup inp) s of
        (ok, s1) \<Rightarrow>
          if \<not> ok then Some (False, s1)
          else
            let s2 = snd (PublishGlobalMap F inp s1);
                s3 = snd (PublishLocalMap F inp s2);
                s4 = ReadData inp s3
            in do { s5 \<leftarrow> Run_loop F s4; Some (True, s5) })"

lemma Run_loop_total: "\<exists>s'. Run_loop F s = Some s'"
proof (induction F s rule: Run_loop.induct)
  case (1 F s)
  show ?case
  proof (cases "HasData F s")
    case False
    then show ?thesis by (simp add: Run_loop.simps[of F s])
  next
    case True
    from Run_body_total[OF True] obtain s1 where b: "Run_body F s = Some s1" by blast
    from "1.IH"[OF True b] obtain s' where "Run_loop F s1 = Some s'" by blast
    with True b show ?thesis by (simp add: Run_loop.simps[of F s])
  qed
qed


text \<open>
  A pass on an initialised filter with a valid triple, and the step of the loop to the next
  pass.
\<close>

lemma propagate_and_correct_split:
  "propagate_and_correct F s =
     do { s2 \<leftarrow> drain_and_retain F s; Some (snd (CorrectLocalization F s2)) }"
  by (simp add: propagate_and_correct_def drain_and_retain_def)

lemma drain_and_retain_inited_pass:
  assumes "HasInited F s0" and "HasLidarData s0"
    and "ValidLidarData s0 = Some (True, s1)"
    and "drain_and_retain F s1 = Some s"
  shows "Run_body F s0 =
           (let c = snd (CorrectLocalization F s) in
            if HasIMUData c then
              do { (v, s4) \<leftarrow> ValidIMUData c;
                   Some (if v then snd (UpdateLocalization F s4) else s4) }
            else Some c)"
    and "HasData F s0"
  using assms
  by (auto simp: Run_body_def propagate_and_correct_split HasData_def HasLidarData_def Let_def)

lemma Run_loop_step:
  "HasData F s \<Longrightarrow> Run_body F s = Some s' \<Longrightarrow> Run_loop F s = Run_loop F s'"
  by (simp add: Run_loop.simps[of F s])

section \<open>What each step emits\<close>

definition emits :: "(event \<Rightarrow> bool) \<Rightarrow> 'f FilteringFlow \<Rightarrow> 'f FilteringFlow \<Rightarrow> bool" where
  "emits P s s' = (\<exists>es. events s' = events s @ es \<and> list_all P es)"

lemma emits_refl: "events s' = events s \<Longrightarrow> emits P s s'"
  by (simp add: emits_def)

lemma emits_trans: "emits P s s1 \<Longrightarrow> emits P s1 s2 \<Longrightarrow> emits P s s2"
  by (auto simp: emits_def)

lemma emits_mono: "emits P s s' \<Longrightarrow> (\<And>e. P e \<Longrightarrow> Q e) \<Longrightarrow> emits Q s s'"
  by (auto simp: emits_def list_all_iff)

fun is_step_event :: "event \<Rightarrow> bool" where
  "is_step_event (UpdateCalled x ok) = True"
| "is_step_event (CorrectCalled x c ok) = True"
| "is_step_event (LaserOdomPublished p t) = True"
| "is_step_event CurrentScanPublished = True"
| "is_step_event (FusedTFSent p t) = True"
| "is_step_event (FusedOdomPublished p v t) = True"
| "is_step_event e = False"

fun is_init_event :: "event \<Rightarrow> bool" where
  "is_init_event (InitScanCalled c v x ok) = True"
| "is_init_event (InitPoseCalled p v x) = True"
| "is_init_event (LogInitSucceeded d) = True"
| "is_init_event LogInitFailed = True"
| "is_init_event e = False"

lemma UpdateLocalization_emits: "emits is_step_event s (snd (UpdateLocalization F s))"
  by (simp add: emits_def UpdateLocalization_def PublishFusionOdom_def Let_def
        split: prod.splits)

lemma CorrectLocalization_emits: "emits is_step_event s (snd (CorrectLocalization F s))"
  by (simp add: emits_def CorrectLocalization_def PublishFusionOdom_def PublishLidarOdom_def
        Let_def split: prod.splits)

lemma InitLocalization_emits: "emits is_init_event s (snd (InitLocalization F s))"
  by (simp add: emits_def InitLocalization_def Let_def split: prod.splits)

lemma imu_loop_emits: "imu_loop F s = Some s1 \<Longrightarrow> emits is_step_event s s1"
proof (induction F s arbitrary: s1 rule: imu_loop.induct)
  case (1 F s)
  show ?case
  proof (cases "imu_raw_data_buff s")
    case Nil
    with "1.prems" show ?thesis
      by (simp add: imu_loop.simps[of F s] HasIMUData_def emits_refl)
  next
    case (Cons x xs)
    define s0 where "s0 = s\<lparr>current_imu_raw_data := x, imu_raw_data_buff := xs\<rparr>"
    have h: "HasIMUData s" by (simp add: HasIMUData_def Cons)
    have v: "ValidIMUData s = Some (True, s0)"
      by (simp add: ValidIMUData_def Cons s0_def)
    have e0: "emits is_step_event s s0" by (simp add: emits_refl s0_def)
    show ?thesis
    proof (cases "time (current_imu_raw_data s0) < time (current_cloud_data s0)")
      case False
      with "1.prems" h v have "s1 = s0" by (simp add: imu_loop.simps[of F s])
      with e0 show ?thesis by simp
    next
      case True
      with "1.prems" h v have "imu_loop F (snd (UpdateLocalization F s0)) = Some s1"
        by (simp add: imu_loop.simps[of F s])
      from "1.IH"[OF h v refl _ this] True
      have "emits is_step_event (snd (UpdateLocalization F s0)) s1" by simp
      with e0 UpdateLocalization_emits[of s0 F] show ?thesis
        by (blast intro: emits_trans)
    qed
  qed
qed

lemma propagate_and_correct_emits:
  assumes "propagate_and_correct F s = Some s'"
  shows "emits is_step_event s s'"
proof (cases "HasIMUData s")
  case False
  with assms have "s' = snd (CorrectLocalization F s)"
    by (simp add: propagate_and_correct_def)
  then show ?thesis by (simp add: CorrectLocalization_emits)
next
  case True
  with assms obtain s1 where l: "imu_loop F s = Some s1"
    and s': "s' = snd (CorrectLocalization F
               (if time (current_imu_raw_data s1) \<ge> time (current_cloud_data s1)
                then s1\<lparr>imu_raw_data_buff := imu_raw_data_buff s1 @ [current_imu_raw_data s1]\<rparr>
                else s1))"
    by (auto simp: propagate_and_correct_def split: bind_splits)
  define s2 where "s2 = (if time (current_imu_raw_data s1) \<ge> time (current_cloud_data s1)
                then s1\<lparr>imu_raw_data_buff := imu_raw_data_buff s1 @ [current_imu_raw_data s1]\<rparr>
                else s1)"
  have "emits is_step_event s1 s2" by (simp add: s2_def emits_refl)
  with imu_loop_emits[OF l] CorrectLocalization_emits[of s2 F] s' show ?thesis
    unfolding s2_def by (blast intro: emits_trans)
qed

lemma imu_step_emits:
  assumes "(if HasIMUData s3 then
              ValidIMUData s3 \<bind> (\<lambda>(v, s4). Some (if v then snd (UpdateLocalization F s4) else s4))
            else Some s3) = Some s'"
  shows "emits is_step_event s3 s'"
proof (cases "HasIMUData s3")
  case False
  with assms show ?thesis by (simp add: emits_refl)
next
  case True
  with assms obtain x xs where "imu_raw_data_buff s3 = x # xs"
    and "s' = snd (UpdateLocalization F (s3\<lparr>current_imu_raw_data := x, imu_raw_data_buff := xs\<rparr>))"
    by (auto simp: ValidIMUData_Some split: bind_splits)
  with UpdateLocalization_emits[of "s3\<lparr>current_imu_raw_data := x, imu_raw_data_buff := xs\<rparr>" F]
  show ?thesis by (simp add: emits_def)
qed

lemma lidar_step_emits:
  assumes "(if HasLidarData s then
               ValidLidarData s \<bind> (\<lambda>(v, s1). if v then propagate_and_correct F s1 else Some s1)
             else Some s) = Some s3"
  shows "emits is_step_event s s3"
proof (cases "HasLidarData s")
  case False
  with assms show ?thesis by (simp add: emits_refl)
next
  case True
  with assms obtain v s1 where v: "ValidLidarData s = Some (v, s1)"
    and r: "(if v then propagate_and_correct F s1 else Some s1) = Some s3"
    by (auto split: bind_splits)
  have "emits is_step_event s s1" using ValidLidarData_buffered(6)[OF v] by (simp add: emits_refl)
  moreover have "emits is_step_event s1 s3"
    using r propagate_and_correct_emits[of F s1 s3] by (cases v) (simp_all add: emits_refl)
  ultimately show ?thesis by (rule emits_trans)
qed

lemma Run_body_inited_cases:
  assumes "HasInited F s" and "Run_body F s = Some s'"
  obtains s3 where
    "(if HasLidarData s then
        ValidLidarData s \<bind> (\<lambda>(v, s1). if v then propagate_and_correct F s1 else Some s1)
      else Some s) = Some s3"
    and "(if HasIMUData s3 then
              ValidIMUData s3 \<bind> (\<lambda>(v, s4). Some (if v then snd (UpdateLocalization F s4) else s4))
            else Some s3) = Some s'"
  using assms by (auto simp: Run_body_def split: bind_splits)

lemma Run_body_uninited_cases:
  assumes "\<not> HasInited F s" and "Run_body F s = Some s'"
  obtains v s1 where "ValidLidarData s = Some (v, s1)"
    and "s' = (if v then snd (InitLocalization F s1) else s1)"
  using assms by (auto simp: Run_body_def split: bind_splits)

lemma Run_body_emits:
  assumes "Run_body F s = Some s'"
  shows "emits (\<lambda>e. if HasInited F s then is_step_event e else is_init_event e) s s'"
proof (cases "HasInited F s")
  case True
  from Run_body_inited_cases[OF True assms] obtain s3 where
    a: "(if HasLidarData s then
        ValidLidarData s \<bind> (\<lambda>(v, s1). if v then propagate_and_correct F s1 else Some s1)
      else Some s) = Some s3"
    and b: "(if HasIMUData s3 then
              ValidIMUData s3 \<bind> (\<lambda>(v, s4). Some (if v then snd (UpdateLocalization F s4) else s4))
            else Some s3) = Some s'" by blast
  from lidar_step_emits[OF a] imu_step_emits[OF b] have "emits is_step_event s s'"
    by (rule emits_trans)
  with True show ?thesis by simp
next
  case False
  from Run_body_uninited_cases[OF False assms] obtain v s1 where
    v: "ValidLidarData s = Some (v, s1)"
    and s': "s' = (if v then snd (InitLocalization F s1) else s1)" by blast
  have "emits is_init_event s s1" using ValidLidarData_buffered(6)[OF v] by (simp add: emits_refl)
  moreover have "emits is_init_event s1 s'"
    using s' InitLocalization_emits[of s1 F] by (cases v) (simp_all add: emits_refl)
  ultimately have "emits is_init_event s s'" by (rule emits_trans)
  with False show ?thesis by simp
qed

lemma Run_body_calibration:
  assumes "Run_body F s = Some s'"
  shows "calibration_received s' = calibration_received s \<and> lidar_to_imu s' = lidar_to_imu s"
proof (cases "HasInited F s")
  case True
  from Run_body_inited_cases[OF True assms] obtain s3 where
    a: "(if HasLidarData s then
        ValidLidarData s \<bind> (\<lambda>(v, s1). if v then propagate_and_correct F s1 else Some s1)
      else Some s) = Some s3"
    and b: "(if HasIMUData s3 then
              ValidIMUData s3 \<bind> (\<lambda>(v, s4). Some (if v then snd (UpdateLocalization F s4) else s4))
            else Some s3) = Some s'" by blast
  have "calibration_received s3 = calibration_received s \<and> lidar_to_imu s3 = lidar_to_imu s"
  proof (cases "HasLidarData s")
    case l: True
    with a lidar_step_frame(2,3)[OF l] show ?thesis by simp
  next
    case False
    with a show ?thesis by simp
  qed
  with imu_step_frame(3,4)[OF b] show ?thesis by simp
next
  case False
  from Run_body_uninited_cases[OF False assms] obtain v s1 where
    v: "ValidLidarData s = Some (v, s1)"
    and s': "s' = (if v then snd (InitLocalization F s1) else s1)" by blast
  from ValidLidarData_buffered(3,4)[OF v] s' show ?thesis
    by (simp add: InitLocalization_frame)
qed

lemma Run_loop_calibration:
  "Run_loop F s = Some s' \<Longrightarrow>
     calibration_received s' = calibration_received s \<and> lidar_to_imu s' = lidar_to_imu s \<and>
     emits (\<lambda>e. e \<noteq> TFLookup) s s'"
proof (induction F s arbitrary: s' rule: Run_loop.induct)
  case (1 F s)
  show ?case
  proof (cases "HasData F s")
    case False
    with "1.prems" show ?thesis by (simp add: Run_loop.simps[of F s] emits_refl)
  next
    case True
    with "1.prems" obtain s1 where b: "Run_body F s = Some s1" and l: "Run_loop F s1 = Some s'"
      by (auto simp: Run_loop.simps[of F s] split: option.splits)
    have "emits (\<lambda>e. e \<noteq> TFLookup) s s1"
      by (rule emits_mono[OF Run_body_emits[OF b]]) (auto split: if_splits)
    with "1.IH"[OF True b l] Run_body_calibration[OF b] show ?thesis
      by (auto intro: emits_trans)
  qed
qed


lemma emits_count:
  "emits (\<lambda>e. e \<noteq> a) s s' \<Longrightarrow> count_list (events s') a = count_list (events s) a"
  by (auto simp: emits_def list_all_iff count_list_0_iff)

lemma Run_start_frame:
  "calibration_received (ReadData inp (snd (PublishLocalMap F inp (snd (PublishGlobalMap F inp s))))) =
     calibration_received s"
  "lidar_to_imu (ReadData inp (snd (PublishLocalMap F inp (snd (PublishGlobalMap F inp s))))) =
     lidar_to_imu s"
  "emits (\<lambda>e. e \<noteq> TFLookup) s
     (ReadData inp (snd (PublishLocalMap F inp (snd (PublishGlobalMap F inp s)))))"
  by (simp_all add: ReadData_def PublishLocalMap_def PublishGlobalMap_def emits_def)

lemma Run_passes_gate:
  assumes "fst (InitCalibration (tf_lookup inp) s)"
  shows "\<exists>s'. Run F inp s = Some (True, s') \<and>
           calibration_received s' = calibration_received (snd (InitCalibration (tf_lookup inp) s)) \<and>
           lidar_to_imu s' = lidar_to_imu (snd (InitCalibration (tf_lookup inp) s)) \<and>
           count_list (events s') TFLookup =
             count_list (events (snd (InitCalibration (tf_lookup inp) s))) TFLookup"
proof -
  define s1 where "s1 = snd (InitCalibration (tf_lookup inp) s)"
  define s4 where "s4 = ReadData inp (snd (PublishLocalMap F inp (snd (PublishGlobalMap F inp s1))))"
  obtain s5 where l: "Run_loop F s4 = Some s5" using Run_loop_total by blast
  have r: "Run F inp s = Some (True, s5)"
    using assms l
    by (cases "InitCalibration (tf_lookup inp) s") (simp add: Run_def s1_def s4_def Let_def)
  from Run_loop_calibration[OF l] Run_start_frame[where inp=inp and F=F and s=s1]
  have "calibration_received s5 = calibration_received s1" "lidar_to_imu s5 = lidar_to_imu s1"
    "emits (\<lambda>e. e \<noteq> TFLookup) s1 s5"
    by (auto simp: s4_def intro: emits_trans)
  with r show ?thesis unfolding s1_def by (auto dest: emits_count)
qed

lemma discard_older_sorted:
  "sorted (map time xs) \<Longrightarrow> discard_older t xs = filter (\<lambda>x. t \<le> time x) xs"
proof (induction xs)
  case Nil
  then show ?case by simp
next
  case (Cons x xs)
  show ?case
  proof (cases "time x < t")
    case True
    with Cons show ?thesis by simp
  next
    case False
    with Cons.prems have "\<forall>y\<in>set xs. t \<le> time y" by fastforce
    then have "filter (\<lambda>x. t \<le> time x) xs = xs" by (simp add: filter_id_conv)
    with False show ?thesis by simp
  qed
qed

section \<open>The inner loop on a buffer in timestamp order\<close>

text \<open>
  What the specification asks of the inner loop, in its words: propagate with every given
  sample in turn, emitting an odometry output after each successful one. On a raw buffer in
  timestamp order the branch does that with every sample older than the cloud sample and
  then corrects; the first sample that is not older goes to the back of the buffer.
\<close>

fun propagate :: "'f Filtering \<Rightarrow> IMUData list \<Rightarrow> 'f FilteringFlow \<Rightarrow> 'f FilteringFlow" where
  "propagate F [] s = s"
| "propagate F (x # xs) s =
     propagate F xs (snd (UpdateLocalization F (s\<lparr>current_imu_raw_data := x\<rparr>)))"

lemma UpdateLocalization_buff:
  "snd (UpdateLocalization F (s\<lparr>imu_raw_data_buff := b\<rparr>)) =
     (snd (UpdateLocalization F s))\<lparr>imu_raw_data_buff := b\<rparr>"
  by (simp add: UpdateLocalization_def PublishFusionOdom_def Let_def split: prod.splits)

lemma UpdateLocalization_buff_current:
  "snd (UpdateLocalization F (s\<lparr>imu_raw_data_buff := b, current_imu_raw_data := a\<rparr>)) =
     (snd (UpdateLocalization F (s\<lparr>current_imu_raw_data := a\<rparr>)))\<lparr>imu_raw_data_buff := b\<rparr>"
  by (simp add: UpdateLocalization_def PublishFusionOdom_def Let_def split: prod.splits)

lemma propagate_buff:
  "propagate F xs (s\<lparr>imu_raw_data_buff := b\<rparr>) = (propagate F xs s)\<lparr>imu_raw_data_buff := b\<rparr>"
  by (induction xs arbitrary: s) (simp_all add: UpdateLocalization_buff_current)

lemma propagate_cloud:
  "current_cloud_data (propagate F xs s) = current_cloud_data s"
  by (induction xs arbitrary: s) (simp_all add: UpdateLocalization_frame)

lemma imu_loop_propagate:
  "imu_raw_data_buff s = raw \<Longrightarrow>
   imu_loop F s =
     Some (case dropWhile (\<lambda>x. time x < time (current_cloud_data s)) raw of
             [] \<Rightarrow>
               (propagate F (takeWhile (\<lambda>x. time x < time (current_cloud_data s)) raw) s)
                 \<lparr>imu_raw_data_buff := []\<rparr>
           | y # ys \<Rightarrow>
               (propagate F (takeWhile (\<lambda>x. time x < time (current_cloud_data s)) raw) s)
                 \<lparr>current_imu_raw_data := y, imu_raw_data_buff := ys\<rparr>)"
proof (induction raw arbitrary: s)
  case Nil
  then have "s\<lparr>imu_raw_data_buff := []\<rparr> = s" by (cases s) simp
  with Nil show ?case by (simp add: imu_loop.simps[of F s] HasIMUData_def)
next
  case (Cons x xs)
  let ?P = "\<lambda>x. time x < time (current_cloud_data s)"
  define s0 where "s0 = s\<lparr>current_imu_raw_data := x, imu_raw_data_buff := xs\<rparr>"
  have h: "HasIMUData s" by (simp add: HasIMUData_def Cons.prems)
  have v: "ValidIMUData s = Some (True, s0)"
    by (simp add: ValidIMUData_def Cons.prems s0_def)
  show ?case
  proof (cases "?P x")
    case False
    with h v show ?thesis by (simp add: imu_loop.simps[of F s] s0_def)
  next
    case True
    define u where "u = snd (UpdateLocalization F (s\<lparr>current_imu_raw_data := x\<rparr>))"
    define s1 where "s1 = snd (UpdateLocalization F s0)"
    have b: "imu_raw_data_buff s1 = xs" and c: "current_cloud_data s1 = current_cloud_data s"
      by (simp_all add: s1_def s0_def UpdateLocalization_frame)
    have e: "s1 = u\<lparr>imu_raw_data_buff := xs\<rparr>"
      by (simp add: s1_def s0_def u_def UpdateLocalization_def PublishFusionOdom_def Let_def
            split: prod.splits)
    have step: "imu_loop F s = imu_loop F s1"
      using h v True by (simp add: imu_loop.simps[of F s] s0_def s1_def)
    have p: "propagate F (takeWhile ?P (x # xs)) s = propagate F (takeWhile ?P xs) u"
      using True by (simp add: u_def)
    have d: "dropWhile ?P (x # xs) = dropWhile ?P xs"
      using True by simp
    have q: "propagate F (takeWhile ?P xs) s1 =
             (propagate F (takeWhile ?P xs) u)\<lparr>imu_raw_data_buff := xs\<rparr>"
      by (simp add: e propagate_buff)
    show ?thesis
    proof (cases "dropWhile ?P xs")
      case Nil
      from Cons.IH[OF b, unfolded c Nil] have "imu_loop F s1 =
          Some ((propagate F (takeWhile ?P xs) s1)\<lparr>imu_raw_data_buff := []\<rparr>)"
        by simp
      then show ?thesis unfolding step p d Nil by (simp add: q)
    next
      case (Cons y ys)
      from Cons.IH[OF b, unfolded c Cons] have "imu_loop F s1 =
          Some ((propagate F (takeWhile ?P xs) s1)
                  \<lparr>current_imu_raw_data := y, imu_raw_data_buff := ys\<rparr>)"
        by simp
      then show ?thesis unfolding step p d Cons by (simp add: q)
    qed
  qed
qed

lemma takeWhile_older_sorted:
  "sorted (map time xs) \<Longrightarrow>
     takeWhile (\<lambda>x. time x < t) xs = filter (\<lambda>x. time x < t) xs"
proof (induction xs)
  case Nil
  then show ?case by simp
next
  case (Cons x xs)
  show ?case
  proof (cases "time x < t")
    case True
    with Cons show ?thesis by simp
  next
    case False
    with Cons.prems have "\<forall>y\<in>set xs. \<not> time y < t" by fastforce
    then have "filter (\<lambda>x. time x < t) xs = []" by (simp add: filter_empty_conv)
    with False show ?thesis by simp
  qed
qed

lemma propagate_current:
  "current_imu_raw_data (propagate F xs s) =
     (if xs = [] then current_imu_raw_data s else last xs)"
  by (induction xs arbitrary: s) (simp_all add: UpdateLocalization_frame)

lemma propagate_and_correct_sorted:
  assumes "sorted (map time (imu_raw_data_buff s))"
    and "older = filter (\<lambda>x. time x < time (current_cloud_data s)) (imu_raw_data_buff s)"
    and "newer = filter (\<lambda>x. time (current_cloud_data s) \<le> time x) (imu_raw_data_buff s)"
  shows "propagate_and_correct F s =
           Some (snd (CorrectLocalization F
             (case newer of
                [] \<Rightarrow> (propagate F older s)\<lparr>imu_raw_data_buff := []\<rparr>
              | y # ys \<Rightarrow>
                  (propagate F older s)
                    \<lparr>current_imu_raw_data := y, imu_raw_data_buff := ys @ [y]\<rparr>)))"
proof (cases "imu_raw_data_buff s")
  case Nil
  then have eq: "s\<lparr>imu_raw_data_buff := []\<rparr> = s" by (cases s) simp
  show ?thesis
    by (simp add: propagate_and_correct_def HasIMUData_def Nil assms(2,3) eq)
next
  case (Cons x xs)
  then have h: "HasIMUData s" by (simp add: HasIMUData_def)
  let ?P = "\<lambda>x. time x < time (current_cloud_data s)"
  define p where "p = propagate F older s"
  have tw: "takeWhile ?P (imu_raw_data_buff s) = older"
    unfolding assms(2) by (rule takeWhile_older_sorted[OF assms(1)])
  have dw: "dropWhile ?P (imu_raw_data_buff s) = newer"
    unfolding assms(3) discard_older_dropWhile[symmetric]
    by (rule discard_older_sorted[OF assms(1)])
  note l = imu_loop_propagate[OF refl, where s=s and F=F, unfolded tw dw, folded p_def]
  have cl: "current_cloud_data p = current_cloud_data s"
    by (simp add: p_def propagate_cloud)
  show ?thesis
  proof (cases newer)
    case Nil
    with l have l': "imu_loop F s = Some (p\<lparr>imu_raw_data_buff := []\<rparr>)" by simp
    from Nil dw have "takeWhile ?P (imu_raw_data_buff s) = imu_raw_data_buff s"
      by (simp add: takeWhile_eq_all_conv)
    with tw Cons have o: "older \<noteq> []" by auto
    then have "last older \<in> set older" by simp
    then have "?P (last older)" unfolding assms(2) by simp
    moreover have "current_imu_raw_data p = last older"
      using o by (simp add: p_def propagate_current)
    ultimately have "time (current_imu_raw_data p) < time (current_cloud_data p)"
      by (simp add: cl)
    with l' h Nil show ?thesis
      unfolding propagate_and_correct_def p_def[symmetric] by simp
  next
    case (Cons y ys)
    with l have l': "imu_loop F s =
        Some (p\<lparr>current_imu_raw_data := y, imu_raw_data_buff := ys\<rparr>)" by simp
    from Cons have "y \<in> set newer" by simp
    then have "time (current_cloud_data s) \<le> time y" unfolding assms(3) by simp
    with l' h Cons cl show ?thesis
      unfolding propagate_and_correct_def p_def[symmetric] by simp
  qed
qed

section \<open>The filter of the specification\<close>

text \<open>
  Modelled from the spec: the member functions of \<^verbatim>\<open>Filtering\<close>, whose implementation
  (\<^verbatim>\<open>filtering.cpp\<close>) is missing. The sibling header \<^verbatim>\<open>imu_gnss_odo_filtering.hpp\<close> declares
  the flag \<^verbatim>\<open>bool has_inited_ = false\<close> and the getter \<^verbatim>\<open>HasInited() { return has_inited_; }\<close>.
  The spec: \<^verbatim>\<open>Init\<close> seeds the nominal state and resets the internal clock to the seeding
  sample's timestamp, after which \<^verbatim>\<open>HasInited()\<close> is true; the primary initialisation
  succeeds or fails with the external place recognition; \<^verbatim>\<open>Predict\<close> fails only on a sample
  older than the internal clock; \<^verbatim>\<open>Correct\<close> returns false when the measurement is judged
  inconsistent and then leaves the nominal state at its predicted value; the state is never
  reset. The numerics (place recognition, strap-down integration, the Kalman correction and
  its consistency check) are parameters.
\<close>

record Filter =
  has_inited :: bool
  filter_time :: real
  current_pose :: Matrix4f
  current_vel :: vec3
  has_new_global_map :: bool
  has_new_local_map :: bool

record numerics =
  place_recognition :: "CloudData \<Rightarrow> Matrix4f option"
  integrate :: "IMUData \<Rightarrow> Matrix4f \<times> vec3 \<Rightarrow> Matrix4f \<times> vec3"
  scan_match :: "CloudData \<Rightarrow> Matrix4f \<Rightarrow> Matrix4f"
  kalman_correct :: "IMUData \<Rightarrow> Matrix4f \<Rightarrow> Matrix4f \<times> vec3 \<Rightarrow> (Matrix4f \<times> vec3) option"

definition Identity4 :: Matrix4f where
  "Identity4 = \<lparr>linear = ((1, 0, 0), (0, 1, 0), (0, 0, 1)), translation = (0, 0, 0)\<rparr>"

definition Filter_new :: Filter where
  "Filter_new =
     \<lparr>has_inited = False, filter_time = 0, current_pose = Identity4, current_vel = (0, 0, 0),
      has_new_global_map = False, has_new_local_map = False\<rparr>"

definition Filter_seed :: "Matrix4f \<Rightarrow> vec3 \<Rightarrow> IMUData \<Rightarrow> Filter \<Rightarrow> Filter" where
  "Filter_seed p v x f =
     f\<lparr>has_inited := True, filter_time := time x, current_pose := p, current_vel := v\<rparr>"

definition spec_Filtering :: "numerics \<Rightarrow> Filter Filtering" where
  "spec_Filtering N =
     \<lparr>Filtering_Init_scan = (\<lambda>c v x f.
        case place_recognition N c of
          None \<Rightarrow> (False, f)
        | Some p \<Rightarrow> (True, Filter_seed p v x f)),
      Filtering_Init_pose = (\<lambda>p v x f. (True, Filter_seed p v x f)),
      Filtering_Update = (\<lambda>x f.
        if time x < filter_time f then (False, f)
        else
          (case integrate N x (current_pose f, current_vel f) of
             (p, v) \<Rightarrow> (True, f\<lparr>filter_time := time x, current_pose := p, current_vel := v\<rparr>))),
      Filtering_Correct = (\<lambda>x c lp f.
        let lp' = scan_match N c (current_pose f) in
        case kalman_correct N x lp' (current_pose f, current_vel f) of
          None \<Rightarrow> (False, lp', f)
        | Some (p, v) \<Rightarrow> (True, lp', f\<lparr>current_pose := p, current_vel := v\<rparr>)),
      Filtering_HasInited = has_inited,
      Filtering_GetPose = current_pose,
      Filtering_GetOdometry = (\<lambda>f. (current_pose f, current_vel f)),
      Filtering_HasNewGlobalMap = has_new_global_map,
      Filtering_GetGlobalMap = (\<lambda>f. f\<lparr>has_new_global_map := False\<rparr>),
      Filtering_HasNewLocalMap = has_new_local_map\<rparr>"

section \<open>Sample data\<close>

definition imu_at :: "real \<Rightarrow> IMUData" where
  "imu_at t = \<lparr>time = t, linear_acceleration = (0, 0, 0), angular_velocity = (0, 0, 0)\<rparr>"

definition cloud_at :: "real \<Rightarrow> CloudData" where
  "cloud_at t = \<lparr>time = t, cloud_ptr = []\<rparr>"

definition gnss_at :: "real \<Rightarrow> PoseData" where
  "gnss_at t = \<lparr>time = t, pose = Identity4, vel = (0, 0, 0)\<rparr>"

text \<open>
  The flow as its constructor leaves it, around a given filter: every buffer is empty. The
  initial values of the other members are set in \<^verbatim>\<open>filtering_flow.hpp\<close>, which is missing;
  they are taken to be zero samples and identity transforms.
\<close>

definition FilteringFlow_new :: "'f \<Rightarrow> 'f FilteringFlow" where
  "FilteringFlow_new f =
     \<lparr>imu_raw_data_buff = [], cloud_data_buff = [], gnss_data_buff = [],
      imu_synced_data_buff = [],
      current_imu_raw_data = imu_at 0, current_cloud_data = cloud_at 0,
      current_gnss_data = gnss_at 0, current_imu_synced_data = imu_at 0,
      calibration_received = False, lidar_to_imu = Identity4, laser_pose = Identity4,
      fused_pose = Identity4, fused_vel = (0, 0, 0), filtering_ptr = f, events = []\<rparr>"

text \<open>
  Numerics that never move the state: place recognition answers \<open>r\<close> for every scan, and
  every correction is accepted (\<open>a\<close>) or every correction is rejected.
\<close>

definition still :: "Matrix4f option \<Rightarrow> bool \<Rightarrow> numerics" where
  "still r a =
     \<lparr>place_recognition = (\<lambda>c. r), integrate = (\<lambda>x pv. pv),
      scan_match = (\<lambda>c p. p),
      kalman_correct = (\<lambda>x lp pv. if a then Some pv else None)\<rparr>"

text \<open>A tick that brings nothing: no transform, no subscribers, no samples.\<close>

definition quiet_tick :: tick where
  "quiet_tick =
     \<lparr>tf_lookup = None, global_map_has_subscribers = False, local_map_has_subscribers = False,
      new_imu_raw = [], new_cloud = [], new_gnss = [], new_imu_synced = []\<rparr>"

text \<open>
  A flow about to initialise: the triple at 2 s is current, raw samples wait at 1, 2 and 3 s.
\<close>

definition seeding_flow :: "Filter FilteringFlow" where
  "seeding_flow =
     (FilteringFlow_new Filter_new)
       \<lparr>current_cloud_data := cloud_at 2, current_gnss_data := gnss_at 2,
        current_imu_synced_data := imu_at 2,
        imu_raw_data_buff := [imu_at 1, imu_at 2, imu_at 3]\<rparr>"

text \<open>
  The first tick resolves the calibration and brings one aligned triple at 0 s;
  \<open>running_flow\<close> is the flow it leaves when place recognition fails.
\<close>

definition first_tick :: tick where
  "first_tick =
     quiet_tick
       \<lparr>tf_lookup := Some Identity4,
        new_cloud := [cloud_at 0], new_gnss := [gnss_at 0], new_imu_synced := [imu_at 0]\<rparr>"

definition running_flow :: "Filter FilteringFlow" where
  "running_flow =
     (FilteringFlow_new Filter_new)
       \<lparr>calibration_received := True,
        filtering_ptr := Filter_seed Identity4 (0, 0, 0) (imu_at 0) Filter_new,
        events :=
          [TFLookup,
           InitScanCalled (cloud_at 0) (0, 0, 0) (imu_at 0) False,
           InitPoseCalled Identity4 (0, 0, 0) (imu_at 0),
           LogInitFailed]\<rparr>"

text \<open>
  A later tick: raw samples at 1.0, 1.1 and 1.2 s and two triples, at 0.95 and 1.05 s, every
  stream in timestamp order. \<open>late_triple_flow\<close> holds the same raw samples and the first
  triple only.
\<close>

definition second_tick :: tick where
  "second_tick =
     quiet_tick
       \<lparr>new_imu_raw := [imu_at 1, imu_at 1.1, imu_at 1.2],
        new_cloud := [cloud_at 0.95, cloud_at 1.05],
        new_gnss := [gnss_at 0.95, gnss_at 1.05],
        new_imu_synced := [imu_at 0.95, imu_at 1.05]\<rparr>"

definition late_triple_flow :: "Filter FilteringFlow" where
  "late_triple_flow =
     running_flow
       \<lparr>imu_raw_data_buff := [imu_at 1, imu_at 1.1, imu_at 1.2],
        cloud_data_buff := [cloud_at 0.95],
        gnss_data_buff := [gnss_at 0.95],
        imu_synced_data_buff := [imu_at 0.95]\<rparr>"

text \<open>
  A fresh flow whose cloud, GNSS and synced inertial fronts are at the given times.
\<close>

definition triple_flow :: "real \<Rightarrow> real \<Rightarrow> real \<Rightarrow> Filter FilteringFlow" where
  "triple_flow tc tg ti =
     (FilteringFlow_new Filter_new)
       \<lparr>cloud_data_buff := [cloud_at tc, cloud_at (tc + 1)],
        gnss_data_buff := [gnss_at tg],
        imu_synced_data_buff := [imu_at ti, imu_at (ti + 1)]\<rparr>"

text \<open>
  \<open>late_triple_flow\<close> after the triple is taken and the raw sample at 1.0 s is put back
  (\<open>drained_flow\<close>), after a correction that is rejected (\<open>rejected_flow\<close>), and after the
  propagation that follows in the same pass (\<open>resumed_flow\<close>).
\<close>

definition drained_flow :: "Filter FilteringFlow" where
  "drained_flow =
     late_triple_flow
       \<lparr>cloud_data_buff := [], gnss_data_buff := [], imu_synced_data_buff := [],
        current_cloud_data := cloud_at 0.95, current_gnss_data := gnss_at 0.95,
        current_imu_synced_data := imu_at 0.95, current_imu_raw_data := imu_at 1,
        imu_raw_data_buff := [imu_at 1.1, imu_at 1.2, imu_at 1]\<rparr>"

definition rejected_flow :: "Filter FilteringFlow" where
  "rejected_flow =
     drained_flow
       \<lparr>laser_pose := Identity4,
        events := events drained_flow @
          [CorrectCalled (imu_at 0.95) (cloud_at 0.95) False,
           LaserOdomPublished Identity4 0.95,
           CurrentScanPublished]\<rparr>"

definition resumed_flow :: "Filter FilteringFlow" where
  "resumed_flow =
     rejected_flow
       \<lparr>current_imu_raw_data := imu_at 1.1, imu_raw_data_buff := [imu_at 1.2, imu_at 1],
        filtering_ptr := (filtering_ptr rejected_flow)\<lparr>filter_time := 1.1\<rparr>,
        events := events rejected_flow @
          [UpdateCalled (imu_at 1.1) True, FusedTFSent Identity4 1.1,
           FusedOdomPublished Identity4 (0, 0, 0) 1.1]\<rparr>"

text \<open>A flow about to initialise whose raw samples are not in timestamp order.\<close>

definition unordered_seeding_flow :: "Filter FilteringFlow" where
  "unordered_seeding_flow = seeding_flow\<lparr>imu_raw_data_buff := [imu_at 3, imu_at 1, imu_at 2]\<rparr>"

text \<open>The calls on the filter that propagate or correct.\<close>

fun is_filter_call :: "event \<Rightarrow> bool" where
  "is_filter_call (UpdateCalled x ok) = True"
| "is_filter_call (CorrectCalled x c ok) = True"
| "is_filter_call e = False"

lemmas sample_defs = first_tick_def quiet_tick_def FilteringFlow_new_def
  Filter_new_def spec_Filtering_def still_def imu_at_def cloud_at_def gnss_at_def Identity4_def
  Filter_seed_def running_flow_def

lemmas flow_defs = Run_def InitCalibration_def PublishGlobalMap_def PublishLocalMap_def
  ReadData_def Run_loop.simps HasData_def HasInited_def Run_body_def ValidLidarData_def
  InitLocalization_def Let_def HasLidarData_def HasIMUData_def ValidIMUData_def
  imu_loop.simps propagate_and_correct_def UpdateLocalization_def CorrectLocalization_def
  PublishLidarOdom_def PublishFusionOdom_def

section \<open>The flow around the filter of the specification\<close>

fun is_init_call :: "event \<Rightarrow> bool" where
  "is_init_call (InitScanCalled c v x ok) = True"
| "is_init_call e = False"

definition inits :: "event list \<Rightarrow> nat" where
  "inits es = length (filter is_init_call es)"

lemma emits_step_inits: "emits is_step_event s s' \<Longrightarrow> inits (events s') = inits (events s)"
proof -
  assume "emits is_step_event s s'"
  then obtain es where e: "events s' = events s @ es" and l: "list_all is_step_event es"
    by (auto simp: emits_def)
  have "filter is_init_call es = []"
  proof (rule filter_False, rule ballI)
    fix e assume "e \<in> set es"
    with l have "is_step_event e" by (simp add: list_all_iff)
    then show "\<not> is_init_call e" by (cases e) simp_all
  qed
  with e show ?thesis by (simp add: inits_def)
qed

lemma InitLocalization_inits:
  "inits (events (snd (InitLocalization F s))) = inits (events s) + 1"
  by (simp add: InitLocalization_def Let_def inits_def split: prod.splits)

definition keeps :: "'f Filtering \<Rightarrow> ('f \<Rightarrow> bool) \<Rightarrow> bool" where
  "keeps F Q =
     ((\<forall>x f. Q f \<longrightarrow> Q (snd (Filtering_Update F x f))) \<and>
      (\<forall>x c lp f. Q f \<longrightarrow> Q (snd (snd (Filtering_Correct F x c lp f)))))"

lemma UpdateLocalization_filter:
  "filtering_ptr (snd (UpdateLocalization F s)) =
     snd (Filtering_Update F (current_imu_raw_data s) (filtering_ptr s))"
  by (simp add: UpdateLocalization_def PublishFusionOdom_frame Let_def split: prod.splits)

lemma CorrectLocalization_filter:
  "filtering_ptr (snd (CorrectLocalization F s)) =
     snd (snd (Filtering_Correct F (current_imu_synced_data s) (current_cloud_data s)
                 (laser_pose s) (filtering_ptr s)))"
  by (simp add: CorrectLocalization_def PublishFusionOdom_frame PublishLidarOdom_def Let_def
        split: prod.splits)

lemma UpdateLocalization_keeps:
  "keeps F Q \<Longrightarrow> Q (filtering_ptr s) \<Longrightarrow> Q (filtering_ptr (snd (UpdateLocalization F s)))"
  by (simp add: keeps_def UpdateLocalization_filter)

lemma CorrectLocalization_keeps:
  "keeps F Q \<Longrightarrow> Q (filtering_ptr s) \<Longrightarrow> Q (filtering_ptr (snd (CorrectLocalization F s)))"
  by (simp add: keeps_def CorrectLocalization_filter)

lemma imu_loop_keeps:
  "imu_loop F s = Some s1 \<Longrightarrow> keeps F Q \<Longrightarrow> Q (filtering_ptr s) \<Longrightarrow> Q (filtering_ptr s1)"
proof (induction F s arbitrary: s1 rule: imu_loop.induct)
  case (1 F s)
  show ?case
  proof (cases "imu_raw_data_buff s")
    case Nil
    with "1.prems" show ?thesis
      by (simp add: imu_loop.simps[of F s] HasIMUData_def)
  next
    case (Cons x xs)
    define s0 where "s0 = s\<lparr>current_imu_raw_data := x, imu_raw_data_buff := xs\<rparr>"
    have h: "HasIMUData s" by (simp add: HasIMUData_def Cons)
    have v: "ValidIMUData s = Some (True, s0)"
      by (simp add: ValidIMUData_def Cons s0_def)
    have q0: "Q (filtering_ptr s0)" using "1.prems"(3) by (simp add: s0_def)
    show ?thesis
    proof (cases "time (current_imu_raw_data s0) < time (current_cloud_data s0)")
      case False
      with "1.prems"(1) h v have "s1 = s0" by (simp add: imu_loop.simps[of F s])
      with q0 show ?thesis by simp
    next
      case True
      with "1.prems"(1) h v have l: "imu_loop F (snd (UpdateLocalization F s0)) = Some s1"
        by (simp add: imu_loop.simps[of F s])
      have c: "True \<and> time (current_imu_raw_data s0) < time (current_cloud_data s0)"
        using True by simp
      show ?thesis
        by (rule "1.IH"[OF h v refl c l "1.prems"(2)])
           (rule UpdateLocalization_keeps[OF "1.prems"(2) q0])
    qed
  qed
qed

lemma propagate_and_correct_keeps:
  assumes "propagate_and_correct F s = Some s'" and "keeps F Q" and "Q (filtering_ptr s)"
  shows "Q (filtering_ptr s')"
proof (cases "HasIMUData s")
  case False
  with assms(1) have "s' = snd (CorrectLocalization F s)"
    by (simp add: propagate_and_correct_def)
  with assms(2,3) show ?thesis by (simp add: CorrectLocalization_keeps)
next
  case True
  with assms(1) obtain s1 where l: "imu_loop F s = Some s1"
    and s': "s' = snd (CorrectLocalization F
               (if time (current_imu_raw_data s1) \<ge> time (current_cloud_data s1)
                then s1\<lparr>imu_raw_data_buff := imu_raw_data_buff s1 @ [current_imu_raw_data s1]\<rparr>
                else s1))"
    by (auto simp: propagate_and_correct_def split: bind_splits)
  from imu_loop_keeps[OF l assms(2,3)] have "Q (filtering_ptr s1)" .
  then have "Q (filtering_ptr (if time (current_imu_raw_data s1) \<ge> time (current_cloud_data s1)
                then s1\<lparr>imu_raw_data_buff := imu_raw_data_buff s1 @ [current_imu_raw_data s1]\<rparr>
                else s1))" by simp
  from CorrectLocalization_keeps[OF assms(2) this] s' show ?thesis by simp
qed

lemma Run_body_inited_keeps:
  assumes "HasInited F s" and "Run_body F s = Some s'" and "keeps F Q" and "Q (filtering_ptr s)"
  shows "Q (filtering_ptr s')"
proof -
  from Run_body_inited_cases[OF assms(1,2)] obtain s3 where
    a: "(if HasLidarData s then
        ValidLidarData s \<bind> (\<lambda>(v, s1). if v then propagate_and_correct F s1 else Some s1)
      else Some s) = Some s3"
    and b: "(if HasIMUData s3 then
              ValidIMUData s3 \<bind> (\<lambda>(v, s4). Some (if v then snd (UpdateLocalization F s4) else s4))
            else Some s3) = Some s'" by blast
  have q3: "Q (filtering_ptr s3)"
  proof (cases "HasLidarData s")
    case False
    with a assms(4) show ?thesis by simp
  next
    case True
    with a obtain v s1 where v: "ValidLidarData s = Some (v, s1)"
      and r: "(if v then propagate_and_correct F s1 else Some s1) = Some s3"
      by (auto split: bind_splits)
    from ValidLidarData_buffered(5)[OF v] assms(4) have q1: "Q (filtering_ptr s1)" by simp
    show ?thesis
    proof (cases v)
      case True
      with r have "propagate_and_correct F s1 = Some s3" by simp
      from propagate_and_correct_keeps[OF this assms(3) q1] show ?thesis .
    next
      case False
      with r q1 show ?thesis by simp
    qed
  qed
  show ?thesis
  proof (cases "HasIMUData s3")
    case False
    with b q3 show ?thesis by simp
  next
    case True
    with b obtain x xs where "imu_raw_data_buff s3 = x # xs"
      and s': "s' = snd (UpdateLocalization F (s3\<lparr>current_imu_raw_data := x, imu_raw_data_buff := xs\<rparr>))"
      by (auto simp: ValidIMUData_Some split: bind_splits)
    have "Q (filtering_ptr (s3\<lparr>current_imu_raw_data := x, imu_raw_data_buff := xs\<rparr>))"
      using q3 by simp
    from UpdateLocalization_keeps[OF assms(3) this] s' show ?thesis by simp
  qed
qed

text \<open>A rejected correction leaves the filter of the specification as it was.\<close>

lemma spec_Correct_rejected:
  "\<not> fst (Filtering_Correct (spec_Filtering N) x c lp f) \<Longrightarrow>
     snd (snd (Filtering_Correct (spec_Filtering N) x c lp f)) = f"
  by (simp add: spec_Filtering_def Let_def split: option.splits prod.splits)

lemma spec_Filtering_keeps: "keeps (spec_Filtering N) has_inited"
  by (simp add: keeps_def spec_Filtering_def Let_def split: prod.splits option.splits)

lemma spec_InitLocalization_inits:
  "has_inited (filtering_ptr (snd (InitLocalization (spec_Filtering N) s)))"
  by (simp add: InitLocalization_def spec_Filtering_def Filter_seed_def Let_def
        split: prod.splits option.splits)

lemma spec_Run_body:
  assumes "Run_body (spec_Filtering N) s = Some s'"
  shows "(HasInited (spec_Filtering N) s \<longrightarrow>
            HasInited (spec_Filtering N) s' \<and> inits (events s') = inits (events s)) \<and>
         (\<not> HasInited (spec_Filtering N) s \<longrightarrow>
            (if \<exists>s1. ValidLidarData s = Some (True, s1)
             then HasInited (spec_Filtering N) s' \<and> inits (events s') = inits (events s) + 1
             else \<not> HasInited (spec_Filtering N) s' \<and> inits (events s') = inits (events s)))"
proof (cases "HasInited (spec_Filtering N) s")
  case True
  then have q: "has_inited (filtering_ptr s)" by (simp add: HasInited_def spec_Filtering_def)
  from Run_body_inited_keeps[OF True assms spec_Filtering_keeps q]
  have "HasInited (spec_Filtering N) s'" by (simp add: HasInited_def spec_Filtering_def)
  moreover from Run_body_emits[OF assms] True have "emits is_step_event s s'" by simp
  ultimately show ?thesis using True by (simp add: emits_step_inits)
next
  case False
  from Run_body_uninited_cases[OF False assms] obtain v s1 where
    v: "ValidLidarData s = Some (v, s1)"
    and s': "s' = (if v then snd (InitLocalization (spec_Filtering N) s1) else s1)" by blast
  show ?thesis
  proof (cases v)
    case True
    with s' have "HasInited (spec_Filtering N) s'"
      using spec_InitLocalization_inits[of N s1] by (simp add: HasInited_def spec_Filtering_def)
    moreover have "inits (events s') = inits (events s) + 1"
      using True s' ValidLidarData_buffered(6)[OF v] by (simp add: InitLocalization_inits)
    ultimately show ?thesis using False True v by simp
  next
    case f: False
    with s' ValidLidarData_buffered(5,6)[OF v] False
    have "\<not> HasInited (spec_Filtering N) s'" "inits (events s') = inits (events s)"
      by (simp_all add: HasInited_def)
    then show ?thesis using False f v by simp
  qed
qed

lemma spec_Run_loop:
  "Run_loop F s = Some s' \<Longrightarrow> F = spec_Filtering N \<Longrightarrow>
     (HasInited F s \<longrightarrow> HasInited F s') \<and>
     inits (events s') = inits (events s) + (if \<not> HasInited F s \<and> HasInited F s' then 1 else 0)"
proof (induction F s arbitrary: s' rule: Run_loop.induct)
  case (1 F s)
  show ?case
  proof (cases "HasData F s")
    case False
    with "1.prems"(1) have "s' = s" by (simp add: Run_loop.simps[of F s])
    then show ?thesis by simp
  next
    case True
    with "1.prems"(1) obtain s1 where b: "Run_body F s = Some s1" and l: "Run_loop F s1 = Some s'"
      by (auto simp: Run_loop.simps[of F s] split: option.splits)
    from spec_Run_body[of N s s1] b "1.prems"(2)
    have st: "(HasInited F s \<longrightarrow> HasInited F s1 \<and> inits (events s1) = inits (events s))"
      "\<not> HasInited F s \<Longrightarrow> HasInited F s1 \<Longrightarrow> inits (events s1) = inits (events s) + 1"
      "\<not> HasInited F s \<Longrightarrow> \<not> HasInited F s1 \<Longrightarrow> inits (events s1) = inits (events s)"
      by (auto split: if_splits)
    from "1.IH"[OF True b l "1.prems"(2)]
    have ih: "HasInited F s1 \<longrightarrow> HasInited F s'"
      "inits (events s') = inits (events s1) + (if \<not> HasInited F s1 \<and> HasInited F s' then 1 else 0)"
      by simp_all
    show ?thesis
    proof (cases "HasInited F s")
      case True
      with st ih show ?thesis by simp
    next
      case ni: False
      show ?thesis
      proof (cases "HasInited F s1")
        case True
        with st(2)[OF ni] ih ni show ?thesis by simp
      next
        case False
        with st(3)[OF ni] ih ni show ?thesis by simp
      qed
    qed
  qed
qed


lemma spec_Run_start:
  "HasInited (spec_Filtering N)
     (ReadData inp (snd (PublishLocalMap (spec_Filtering N) inp
        (snd (PublishGlobalMap (spec_Filtering N) inp (snd (InitCalibration lk s))))))) =
   HasInited (spec_Filtering N) s"
  "inits (events
     (ReadData inp (snd (PublishLocalMap (spec_Filtering N) inp
        (snd (PublishGlobalMap (spec_Filtering N) inp (snd (InitCalibration lk s)))))))) =
   inits (events s)"
  "HasInited (spec_Filtering N) (snd (InitCalibration lk s)) = HasInited (spec_Filtering N) s"
  "inits (events (snd (InitCalibration lk s))) = inits (events s)"
  by (simp_all add: ReadData_def PublishLocalMap_def PublishGlobalMap_def InitCalibration_def
        HasInited_def spec_Filtering_def inits_def Let_def split: option.splits)

lemma spec_Run:
  assumes "Run (spec_Filtering N) inp s = Some (b, s')"
  shows "(HasInited (spec_Filtering N) s \<longrightarrow> HasInited (spec_Filtering N) s') \<and>
         inits (events s') =
           inits (events s) +
           (if \<not> HasInited (spec_Filtering N) s \<and> HasInited (spec_Filtering N) s' then 1 else 0)"
proof (cases "fst (InitCalibration (tf_lookup inp) s)")
  case False
  with assms have "s' = snd (InitCalibration (tf_lookup inp) s)"
    by (cases "InitCalibration (tf_lookup inp) s") (simp add: Run_def)
  then show ?thesis by (simp add: spec_Run_start)
next
  case True
  define s4 where "s4 = ReadData inp (snd (PublishLocalMap (spec_Filtering N) inp
        (snd (PublishGlobalMap (spec_Filtering N) inp (snd (InitCalibration (tf_lookup inp) s))))))"
  from True assms have l: "Run_loop (spec_Filtering N) s4 = Some s'"
    by (cases "InitCalibration (tf_lookup inp) s")
       (auto simp: Run_def s4_def Let_def split: bind_splits)
  from spec_Run_loop[OF l refl] spec_Run_start(1,2)[where N=N and inp=inp and lk="tf_lookup inp" and s=s]
  show ?thesis unfolding s4_def by simp
qed

text \<open>The first tick initialises the flow and leaves every buffer empty.\<close>

lemma first_tick_run:
  "Run (spec_Filtering (still None True)) first_tick (FilteringFlow_new Filter_new) =
     Some (True, running_flow)"
  by (simp add: sample_defs flow_defs)

section \<open>Claims about the validity checks\<close>

text \<open>
  C10. For every call with a non-empty raw inertial buffer, \<^verbatim>\<open>ValidIMUData\<close> takes the front
  sample out of the buffer (it becomes \<^verbatim>\<open>current_imu_raw_data_\<close>), changes nothing else and
  returns true: no timestamp is looked at, no sample is rejected.
\<close>

theorem ValidIMUData_pops_front:
  assumes "imu_raw_data_buff s = x # xs"
  shows "ValidIMUData s = Some (True, s\<lparr>current_imu_raw_data := x, imu_raw_data_buff := xs\<rparr>)"
  using assms by (simp add: ValidIMUData_def)

theorem ValidIMUData_pops_front_witness:
  "ValidIMUData ((FilteringFlow_new Filter_new)\<lparr>imu_raw_data_buff := [imu_at 3, imu_at 1]\<rparr>) =
     Some (True, (FilteringFlow_new Filter_new)
                   \<lparr>current_imu_raw_data := imu_at 3, imu_raw_data_buff := [imu_at 1]\<rparr>)"
  using ValidIMUData_pops_front
    [of "(FilteringFlow_new Filter_new)\<lparr>imu_raw_data_buff := [imu_at 3, imu_at 1]\<rparr>"
        "imu_at 3" "[imu_at 1]"]
  by simp

text \<open>
  C2, as amended. When the timestamp of the cloud sample differs from that of the GNSS front
  and from that of the synced inertial front by at most 0.05 s each, \<^verbatim>\<open>ValidLidarData\<close> pops
  exactly the front of each of the three buffers and returns true.
\<close>

theorem ValidLidarData_aligned:
  assumes "cloud_data_buff s = c # cs"
    and "gnss_data_buff s = g # gs"
    and "imu_synced_data_buff s = i # js"
    and "\<bar>time c - time g\<bar> \<le> 0.05"
    and "\<bar>time c - time i\<bar> \<le> 0.05"
  shows "ValidLidarData s =
           Some (True, s\<lparr>current_cloud_data := c, current_gnss_data := g,
                          current_imu_synced_data := i,
                          cloud_data_buff := cs, gnss_data_buff := gs,
                          imu_synced_data_buff := js\<rparr>)"
proof -
  have "\<not> (time c - time g < - 0.05 \<or> time c - time i < - 0.05)"
    using assms(4,5) by linarith
  moreover have "\<not> time c - time g > 0.05" "\<not> time c - time i > 0.05"
    using assms(4,5) by linarith+
  ultimately show ?thesis
    using assms(1-3) by (simp add: ValidLidarData_def Let_def)
qed

theorem ValidLidarData_aligned_witness:
  "ValidLidarData (triple_flow 1 1.02 0.97) =
     Some (True, (triple_flow 1 1.02 0.97)
                   \<lparr>current_cloud_data := cloud_at 1, current_gnss_data := gnss_at 1.02,
                     current_imu_synced_data := imu_at 0.97,
                     cloud_data_buff := [cloud_at 2], gnss_data_buff := [],
                     imu_synced_data_buff := [imu_at 1.97]\<rparr>)"
  using ValidLidarData_aligned
    [of "triple_flow 1 1.02 0.97" "cloud_at 1" "[cloud_at 2]" "gnss_at 1.02" "[]"
        "imu_at 0.97" "[imu_at 1.97]"]
  by (simp add: triple_flow_def cloud_at_def gnss_at_def imu_at_def)

text \<open>
  C2 as stated fails: the sample compared with the others is the cloud sample, not the
  absolute-pose (GNSS) sample. Here the GNSS sample is within 0.05 s of the cloud sample and
  of the synced inertial sample, but the cloud sample is 0.07 s ahead of the synced inertial
  one: the call drops the synced inertial front only and reports invalid.
\<close>

theorem gnss_aligned_yet_invalid:
  "\<bar>time (gnss_at 1) - time (cloud_at 1.04)\<bar> \<le> 0.05 \<and>
   \<bar>time (gnss_at 1) - time (imu_at 0.97)\<bar> \<le> 0.05 \<and>
   ValidLidarData (triple_flow 1.04 1 0.97) \<noteq> None \<and>
   fst (the (ValidLidarData (triple_flow 1.04 1 0.97))) = False \<and>
   cloud_data_buff (snd (the (ValidLidarData (triple_flow 1.04 1 0.97)))) =
     cloud_data_buff (triple_flow 1.04 1 0.97) \<and>
   gnss_data_buff (snd (the (ValidLidarData (triple_flow 1.04 1 0.97)))) =
     gnss_data_buff (triple_flow 1.04 1 0.97) \<and>
   imu_synced_data_buff (snd (the (ValidLidarData (triple_flow 1.04 1 0.97)))) =
     tl (imu_synced_data_buff (triple_flow 1.04 1 0.97))"
  by (simp add: ValidLidarData_def Let_def triple_flow_def cloud_at_def gnss_at_def imu_at_def
        FilteringFlow_new_def)

text \<open>
  C1, as amended. When some companion violates the window: if a companion is more than 0.05 s
  ahead of the cloud sample (later in time), the front of the cloud buffer is dropped;
  otherwise, if the GNSS sample is more than 0.05 s behind the cloud sample, the front of the
  GNSS buffer is dropped; otherwise the synced inertial sample is more than 0.05 s behind
  and the front of its buffer is dropped. In each case the call returns false, only that one
  buffer changes and it loses exactly its front.
\<close>

theorem ValidLidarData_misaligned:
  assumes "cloud_data_buff s = c # cs"
    and "gnss_data_buff s = g # gs"
    and "imu_synced_data_buff s = i # js"
    and "\<not> (\<bar>time c - time g\<bar> \<le> 0.05 \<and> \<bar>time c - time i\<bar> \<le> 0.05)"
  shows "ValidLidarData s =
           Some (False,
             if time g - time c > 0.05 \<or> time i - time c > 0.05 then
               s\<lparr>current_cloud_data := c, current_gnss_data := g,
                 current_imu_synced_data := i, cloud_data_buff := cs\<rparr>
             else if time c - time g > 0.05 then
               s\<lparr>current_cloud_data := c, current_gnss_data := g,
                 current_imu_synced_data := i, gnss_data_buff := gs\<rparr>
             else
               s\<lparr>current_cloud_data := c, current_gnss_data := g,
                 current_imu_synced_data := i, imu_synced_data_buff := js\<rparr>)"
proof (cases "time g - time c > 0.05 \<or> time i - time c > 0.05")
  case True
  then have "time c - time g < - 0.05 \<or> time c - time i < - 0.05" by linarith
  with True assms(1-3) show ?thesis
    by (simp add: ValidLidarData_def Let_def)
next
  case False
  then have n: "\<not> (time c - time g < - 0.05 \<or> time c - time i < - 0.05)" by linarith
  show ?thesis
  proof (cases "time c - time g > 0.05")
    case True
    with False n assms(1-3) show ?thesis
      by (simp add: ValidLidarData_def Let_def)
  next
    case g: False
    with False assms(4) have "time c - time i > 0.05" by linarith
    with False n g assms(1-3) show ?thesis
      by (simp add: ValidLidarData_def Let_def)
  qed
qed

theorem ValidLidarData_misaligned_witness:
  "ValidLidarData (triple_flow 1 1 0.5) =
     Some (False, (triple_flow 1 1 0.5)
                    \<lparr>current_cloud_data := cloud_at 1, current_gnss_data := gnss_at 1,
                      current_imu_synced_data := imu_at 0.5,
                      imu_synced_data_buff := [imu_at 1.5]\<rparr>)"
  using ValidLidarData_misaligned
    [of "triple_flow 1 1 0.5" "cloud_at 1" "[cloud_at 2]" "gnss_at 1" "[]"
        "imu_at 0.5" "[imu_at 1.5]"]
  by (simp add: triple_flow_def cloud_at_def gnss_at_def imu_at_def)

text \<open>
  C1 as stated fails. Here the GNSS sample is 0.5 s behind the cloud sample: the call reports
  invalid, but what it drops is the front of the GNSS buffer, and the cloud buffer keeps its
  front.
\<close>

theorem companion_behind_keeps_cloud:
  "time (gnss_at 0.5) < time (cloud_at 1) - 0.05 \<and>
   ValidLidarData (triple_flow 1 0.5 1) \<noteq> None \<and>
   fst (the (ValidLidarData (triple_flow 1 0.5 1))) = False \<and>
   cloud_data_buff (snd (the (ValidLidarData (triple_flow 1 0.5 1)))) =
     cloud_data_buff (triple_flow 1 0.5 1) \<and>
   gnss_data_buff (snd (the (ValidLidarData (triple_flow 1 0.5 1)))) =
     tl (gnss_data_buff (triple_flow 1 0.5 1)) \<and>
   imu_synced_data_buff (snd (the (ValidLidarData (triple_flow 1 0.5 1)))) =
     imu_synced_data_buff (triple_flow 1 0.5 1)"
  by (simp add: ValidLidarData_def Let_def triple_flow_def cloud_at_def gnss_at_def imu_at_def
        FilteringFlow_new_def)

section \<open>Claims about initialisation\<close>

text \<open>
  C5. \<^verbatim>\<open>InitLocalization\<close> first calls the scan-based \<^verbatim>\<open>Init\<close> with the GNSS sample's
  velocity. If that succeeds, the filter it leaves is kept whatever the deviation from the
  GNSS position is: the deviation only goes to the log. If it fails, the pose-based \<^verbatim>\<open>Init\<close>
  is called with the GNSS sample's pose and velocity and its result is kept, whatever it
  returns. In both cases \<^verbatim>\<open>InitLocalization\<close> returns true.
\<close>

theorem InitLocalization_primary_then_fallback:
  assumes "init_vel = vel (current_gnss_data s)"
    and "Filtering_Init_scan F (current_cloud_data s) init_vel (current_imu_synced_data s)
           (filtering_ptr s) = (ok, f1)"
    and "Filtering_Init_pose F (pose (current_gnss_data s)) init_vel
           (current_imu_synced_data s) f1 = (ok2, f2)"
    and "deviation =
           norm3 (minus3 (translation (Filtering_GetPose F f1))
                    (translation (pose (current_gnss_data s))))"
  shows "InitLocalization F s =
           (True,
            if ok then
              s\<lparr>filtering_ptr := f1,
                events := events s @
                  [InitScanCalled (current_cloud_data s) init_vel
                     (current_imu_synced_data s) True,
                   LogInitSucceeded deviation],
                imu_raw_data_buff :=
                  discard_older (time (current_imu_synced_data s)) (imu_raw_data_buff s)\<rparr>
            else
              s\<lparr>filtering_ptr := f2,
                events := events s @
                  [InitScanCalled (current_cloud_data s) init_vel
                     (current_imu_synced_data s) False,
                   InitPoseCalled (pose (current_gnss_data s)) init_vel
                     (current_imu_synced_data s),
                   LogInitFailed],
                imu_raw_data_buff :=
                  discard_older (time (current_imu_synced_data s)) (imu_raw_data_buff s)\<rparr>)"
  using assms by (simp add: InitLocalization_def Let_def)

theorem InitLocalization_primary_then_fallback_witness:
  "InitLocalization (spec_Filtering (still None True)) seeding_flow =
     (True,
      seeding_flow
        \<lparr>filtering_ptr := Filter_seed Identity4 (0, 0, 0) (imu_at 2) Filter_new,
         events :=
           [InitScanCalled (cloud_at 2) (0, 0, 0) (imu_at 2) False,
            InitPoseCalled Identity4 (0, 0, 0) (imu_at 2),
            LogInitFailed],
         imu_raw_data_buff := [imu_at 2, imu_at 3]\<rparr>) \<and>
   InitLocalization (spec_Filtering (still (Some Identity4) True)) seeding_flow =
     (True,
      seeding_flow
        \<lparr>filtering_ptr := Filter_seed Identity4 (0, 0, 0) (imu_at 2) Filter_new,
         events :=
           [InitScanCalled (cloud_at 2) (0, 0, 0) (imu_at 2) True,
            LogInitSucceeded 0],
         imu_raw_data_buff := [imu_at 2, imu_at 3]\<rparr>)"
  using InitLocalization_primary_then_fallback
    [of "(0, 0, 0)" seeding_flow "spec_Filtering (still None True)" False Filter_new True
        "Filter_seed Identity4 (0, 0, 0) (imu_at 2) Filter_new" 0]
    InitLocalization_primary_then_fallback
    [of "(0, 0, 0)" seeding_flow "spec_Filtering (still (Some Identity4) True)" True
        "Filter_seed Identity4 (0, 0, 0) (imu_at 2) Filter_new" True
        "Filter_seed Identity4 (0, 0, 0) (imu_at 2)
           (Filter_seed Identity4 (0, 0, 0) (imu_at 2) Filter_new)" 0]
  by (simp add: seeding_flow_def FilteringFlow_new_def spec_Filtering_def still_def
        gnss_at_def cloud_at_def imu_at_def Filter_seed_def Filter_new_def Identity4_def
        norm3_def minus3_def)

text \<open>
  C6, as amended. \<^verbatim>\<open>InitLocalization\<close> takes from the raw inertial buffer its leading run of
  samples older than the synced inertial sample it seeds the filter with, and nothing else:
  the sample left at the front, if any, is not older than the seeding sample. When the
  buffer was in timestamp order, the samples left are exactly those not older than the
  seeding sample, so every one of them has a timestamp greater than or equal to its.
\<close>

theorem InitLocalization_discards_older:
  "imu_raw_data_buff (snd (InitLocalization F s)) =
     dropWhile (\<lambda>x. time x < time (current_imu_synced_data s)) (imu_raw_data_buff s) \<and>
   (imu_raw_data_buff (snd (InitLocalization F s)) \<noteq> [] \<longrightarrow>
      time (current_imu_synced_data s) \<le> time (hd (imu_raw_data_buff (snd (InitLocalization F s))))) \<and>
   (sorted (map time (imu_raw_data_buff s)) \<longrightarrow>
      imu_raw_data_buff (snd (InitLocalization F s)) =
        filter (\<lambda>x. time (current_imu_synced_data s) \<le> time x) (imu_raw_data_buff s) \<and>
      (\<forall>x \<in> set (imu_raw_data_buff (snd (InitLocalization F s))).
         time (current_imu_synced_data s) \<le> time x))"
proof (intro conjI impI)
  show d: "imu_raw_data_buff (snd (InitLocalization F s)) =
     dropWhile (\<lambda>x. time x < time (current_imu_synced_data s)) (imu_raw_data_buff s)"
    by (simp add: InitLocalization_raw discard_older_dropWhile)
  assume "imu_raw_data_buff (snd (InitLocalization F s)) \<noteq> []"
  with d have "dropWhile (\<lambda>x. time x < time (current_imu_synced_data s)) (imu_raw_data_buff s) \<noteq> []"
    by simp
  from hd_dropWhile[OF this] d
  show "time (current_imu_synced_data s) \<le> time (hd (imu_raw_data_buff (snd (InitLocalization F s))))"
    by simp
next
  assume "sorted (map time (imu_raw_data_buff s))"
  then show "imu_raw_data_buff (snd (InitLocalization F s)) =
        filter (\<lambda>x. time (current_imu_synced_data s) \<le> time x) (imu_raw_data_buff s)"
    by (simp add: InitLocalization_raw discard_older_sorted)
  then show "\<forall>x \<in> set (imu_raw_data_buff (snd (InitLocalization F s))).
         time (current_imu_synced_data s) \<le> time x"
    by simp
qed

theorem InitLocalization_discards_older_witness:
  "imu_raw_data_buff (snd (InitLocalization (spec_Filtering (still None True)) seeding_flow)) =
     [imu_at 2, imu_at 3] \<and>
   list_all (\<lambda>x. 2 \<le> time x)
     (imu_raw_data_buff (snd (InitLocalization (spec_Filtering (still None True)) seeding_flow))) \<and>
   imu_raw_data_buff
     (snd (InitLocalization (spec_Filtering (still None True))
        (seeding_flow\<lparr>imu_raw_data_buff := [imu_at 1, imu_at 3, imu_at 1.5]\<rparr>))) =
     [imu_at 3, imu_at 1.5]"
  using InitLocalization_discards_older [of "spec_Filtering (still None True)" seeding_flow]
    InitLocalization_discards_older [of "spec_Filtering (still None True)"
          "seeding_flow\<lparr>imu_raw_data_buff := [imu_at 1, imu_at 3, imu_at 1.5]\<rparr>"]
  by (simp add: seeding_flow_def FilteringFlow_new_def imu_at_def list_all_iff)

text \<open>
  C6 as stated fails on a buffer that is not in timestamp order: with raw samples at 3, 1
  and 2 s and the seeding sample at 2 s the loop stops at the front, and the sample at 1 s
  stays buffered.
\<close>

theorem unordered_buffer_keeps_older:
  "imu_raw_data_buff
     (snd (InitLocalization (spec_Filtering (still None True)) unordered_seeding_flow)) =
     [imu_at 3, imu_at 1, imu_at 2] \<and>
   time (imu_at 1) < time (current_imu_synced_data unordered_seeding_flow)"
  by (simp add: InitLocalization_raw unordered_seeding_flow_def seeding_flow_def
        FilteringFlow_new_def imu_at_def)

section \<open>Claims about the cycle\<close>

text \<open>
  C8. \<^verbatim>\<open>CorrectLocalization\<close> publishes the laser pose and the current scan whether
  \<^verbatim>\<open>Correct\<close> succeeds or not. When \<^verbatim>\<open>Correct\<close> fails, nothing fused is published for it
  and the pass goes on from the filter as \<^verbatim>\<open>Correct\<close> left it: if a raw sample is buffered,
  \<^verbatim>\<open>Update\<close> is called with it on that filter and, on success, the fused odometry of the
  filter \<^verbatim>\<open>Update\<close> leaves is published with that sample's timestamp; the loop of \<^verbatim>\<open>Run\<close>
  then continues with its next pass from the state so reached.
\<close>

theorem CorrectLocalization_publishes_laser_pose:
  assumes "Filtering_Correct F (current_imu_synced_data s) (current_cloud_data s)
             (laser_pose s) (filtering_ptr s) = (ok, lp, f)"
    and "Filtering_GetOdometry F f = (p, v)"
    and "Filtering_Update F x f = (ok', f')"
    and "Filtering_GetOdometry F f' = (p', v')"
    and "rejected =
           s\<lparr>filtering_ptr := f, laser_pose := lp,
             events := events s @
               [CorrectCalled (current_imu_synced_data s) (current_cloud_data s) False,
                LaserOdomPublished lp (time (current_cloud_data s)),
                CurrentScanPublished]\<rparr>"
    and "next_pass =
           (if ok' then
              rejected\<lparr>current_imu_raw_data := x, imu_raw_data_buff := xs,
                filtering_ptr := f', fused_pose := p', fused_vel := v',
                events := events rejected @
                  [UpdateCalled x True, FusedTFSent p' (time x),
                   FusedOdomPublished p' v' (time x)]\<rparr>
            else
              rejected\<lparr>current_imu_raw_data := x, imu_raw_data_buff := xs,
                filtering_ptr := f',
                events := events rejected @ [UpdateCalled x False]\<rparr>)"
  shows "CorrectLocalization F s =
           (ok,
            if ok then
              s\<lparr>filtering_ptr := f, laser_pose := lp, fused_pose := p, fused_vel := v,
                events := events s @
                  [CorrectCalled (current_imu_synced_data s) (current_cloud_data s) True,
                   LaserOdomPublished lp (time (current_cloud_data s)),
                   CurrentScanPublished,
                   FusedTFSent p (time (current_imu_raw_data s)),
                   FusedOdomPublished p v (time (current_imu_raw_data s))]\<rparr>
            else rejected) \<and>
         propagate_and_correct F s \<noteq> None \<and>
         Run_loop F s \<noteq> None \<and>
         (\<not> ok \<and> HasInited F s0 \<and> HasLidarData s0 \<and> ValidLidarData s0 = Some (True, s1) \<and>
          drain_and_retain F s1 = Some s \<and> imu_raw_data_buff s = [] \<longrightarrow>
            Run_body F s0 = Some rejected \<and> Run_loop F s0 = Run_loop F rejected) \<and>
         (\<not> ok \<and> HasInited F s0 \<and> HasLidarData s0 \<and> ValidLidarData s0 = Some (True, s1) \<and>
          drain_and_retain F s1 = Some s \<and> imu_raw_data_buff s = x # xs \<longrightarrow>
            Run_body F s0 = Some next_pass \<and> Run_loop F s0 = Run_loop F next_pass)"
proof -
  have c: "CorrectLocalization F s =
           (ok,
            if ok then
              s\<lparr>filtering_ptr := f, laser_pose := lp, fused_pose := p, fused_vel := v,
                events := events s @
                  [CorrectCalled (current_imu_synced_data s) (current_cloud_data s) True,
                   LaserOdomPublished lp (time (current_cloud_data s)),
                   CurrentScanPublished,
                   FusedTFSent p (time (current_imu_raw_data s)),
                   FusedOdomPublished p v (time (current_imu_raw_data s))]\<rparr>
            else rejected)"
    using assms(1,2,5)
    by (simp add: CorrectLocalization_def PublishLidarOdom_def PublishFusionOdom_def Let_def)
  obtain t where t: "propagate_and_correct F s = Some t"
    using propagate_and_correct_total by blast
  obtain u where u: "Run_loop F s = Some u"
    using Run_loop_total by blast
  have a: "Run_body F s0 = Some rejected \<and> Run_loop F s0 = Run_loop F rejected"
    if h: "\<not> ok" "HasInited F s0" "HasLidarData s0" "ValidLidarData s0 = Some (True, s1)"
      "drain_and_retain F s1 = Some s" "imu_raw_data_buff s = []"
  proof -
    have r: "snd (CorrectLocalization F s) = rejected" using c h(1) by simp
    have "imu_raw_data_buff rejected = []" using h(6) by (simp add: assms(5))
    then have "Run_body F s0 = Some rejected"
      using drain_and_retain_inited_pass(1)[OF h(2-5)] r by (simp add: HasIMUData_def)
    with Run_loop_step[OF drain_and_retain_inited_pass(2)[OF h(2-5)] this] show ?thesis by simp
  qed
  have b: "Run_body F s0 = Some next_pass \<and> Run_loop F s0 = Run_loop F next_pass"
    if h: "\<not> ok" "HasInited F s0" "HasLidarData s0" "ValidLidarData s0 = Some (True, s1)"
      "drain_and_retain F s1 = Some s" "imu_raw_data_buff s = x # xs"
  proof -
    have r: "snd (CorrectLocalization F s) = rejected" using c h(1) by simp
    have q: "imu_raw_data_buff rejected = x # xs" "filtering_ptr rejected = f"
      using h(6) by (simp_all add: assms(5))
    have "snd (UpdateLocalization F
                (rejected\<lparr>current_imu_raw_data := x, imu_raw_data_buff := xs\<rparr>)) = next_pass"
      using assms(3,4) q(2)
      by (simp add: UpdateLocalization_def PublishFusionOdom_def Let_def assms(6))
    then have "Run_body F s0 = Some next_pass"
      using drain_and_retain_inited_pass(1)[OF h(2-5)] r q(1)
      by (simp add: HasIMUData_def ValidIMUData_def)
    with Run_loop_step[OF drain_and_retain_inited_pass(2)[OF h(2-5)] this] show ?thesis by simp
  qed
  from c t u a b show ?thesis by simp
qed

theorem CorrectLocalization_publishes_laser_pose_witness:
  "CorrectLocalization (spec_Filtering (still None False)) drained_flow =
     (False, rejected_flow) \<and>
   Run_body (spec_Filtering (still None False)) late_triple_flow = Some resumed_flow \<and>
   Run_loop (spec_Filtering (still None False)) late_triple_flow =
     Run_loop (spec_Filtering (still None False)) resumed_flow"
  using CorrectLocalization_publishes_laser_pose
    [where F="spec_Filtering (still None False)" and s=drained_flow and ok=False
       and lp=Identity4 and f="filtering_ptr drained_flow" and p=Identity4 and v="(0, 0, 0)"
       and x="imu_at 1.1" and xs="[imu_at 1.2, imu_at 1]" and ok'=True
       and f'="(filtering_ptr drained_flow)\<lparr>filter_time := 1.1\<rparr>"
       and p'=Identity4 and v'="(0, 0, 0)" and rejected=rejected_flow
       and next_pass=resumed_flow and ?s0.0=late_triple_flow and ?s1.0="drained_flow
         \<lparr>current_imu_raw_data := current_imu_raw_data late_triple_flow,
          imu_raw_data_buff := imu_raw_data_buff late_triple_flow\<rparr>"]
  by (simp add: drained_flow_def rejected_flow_def resumed_flow_def late_triple_flow_def
        drain_and_retain_def sample_defs HasInited_def HasLidarData_def HasIMUData_def
        ValidLidarData_def ValidIMUData_def imu_loop.simps Let_def)

text \<open>
  C9. While \<^verbatim>\<open>calibration_received\<close> is false, \<^verbatim>\<open>Run\<close> asks the transform listener once per
  call. If the lookup fails, \<^verbatim>\<open>Run\<close> returns false and the state is as before but for the
  recorded lookup: nothing is published, no buffer is read into or popped. If it succeeds,
  the transform is stored and the flag set. Once the flag is set, \<^verbatim>\<open>Run\<close> returns true,
  never asks again, and leaves the transform and the flag as they are.
\<close>

theorem Run_calibration_gate:
  "(\<not> calibration_received s \<and> tf_lookup inp = None \<longrightarrow>
      Run F inp s = Some (False, s\<lparr>events := events s @ [TFLookup]\<rparr>)) \<and>
   (\<not> calibration_received s \<and> tf_lookup inp = Some m \<longrightarrow>
      (\<exists>s'. Run F inp s = Some (True, s') \<and> calibration_received s' \<and> lidar_to_imu s' = m \<and>
            count_list (events s') TFLookup = count_list (events s) TFLookup + 1)) \<and>
   (calibration_received s \<longrightarrow>
      (\<exists>s'. Run F inp s = Some (True, s') \<and> calibration_received s' \<and>
            lidar_to_imu s' = lidar_to_imu s \<and>
            count_list (events s') TFLookup = count_list (events s) TFLookup))"
proof (intro conjI impI)
  assume "\<not> calibration_received s \<and> tf_lookup inp = None"
  then show "Run F inp s = Some (False, s\<lparr>events := events s @ [TFLookup]\<rparr>)"
    by (simp add: Run_def InitCalibration_def Let_def)
next
  assume a: "\<not> calibration_received s \<and> tf_lookup inp = Some m"
  then have "InitCalibration (tf_lookup inp) s =
      (True, s\<lparr>events := events s @ [TFLookup], lidar_to_imu := m, calibration_received := True\<rparr>)"
    by (simp add: InitCalibration_def Let_def)
  with Run_passes_gate[of inp s F]
  show "\<exists>s'. Run F inp s = Some (True, s') \<and> calibration_received s' \<and> lidar_to_imu s' = m \<and>
            count_list (events s') TFLookup = count_list (events s) TFLookup + 1"
    by simp
next
  assume a: "calibration_received s"
  then have "InitCalibration (tf_lookup inp) s = (True, s)"
    by (simp add: InitCalibration_def)
  with Run_passes_gate[of inp s F] a
  show "\<exists>s'. Run F inp s = Some (True, s') \<and> calibration_received s' \<and>
            lidar_to_imu s' = lidar_to_imu s \<and>
            count_list (events s') TFLookup = count_list (events s) TFLookup"
    by simp
qed

theorem Run_calibration_gate_witness:
  "Run (spec_Filtering (still None True)) (quiet_tick\<lparr>new_imu_raw := [imu_at 1]\<rparr>)
     (FilteringFlow_new Filter_new) =
     Some (False, (FilteringFlow_new Filter_new)\<lparr>events := [TFLookup]\<rparr>) \<and>
   (\<exists>s'. Run (spec_Filtering (still None True)) (quiet_tick\<lparr>tf_lookup := Some Identity4\<rparr>)
           (FilteringFlow_new Filter_new) = Some (True, s') \<and>
         calibration_received s' \<and> lidar_to_imu s' = Identity4 \<and>
         count_list (events s') TFLookup = 1)"
  using Run_calibration_gate
    [of "FilteringFlow_new Filter_new" "quiet_tick\<lparr>new_imu_raw := [imu_at 1]\<rparr>"
        "spec_Filtering (still None True)" Identity4]
    Run_calibration_gate
    [of "FilteringFlow_new Filter_new" "quiet_tick\<lparr>tf_lookup := Some Identity4\<rparr>"
        "spec_Filtering (still None True)" Identity4]
  by (simp add: quiet_tick_def FilteringFlow_new_def)

section \<open>Claims about the run as a whole\<close>

text \<open>
  C7. With the filter of the specification: \<^verbatim>\<open>HasInited()\<close> is false on the flow as
  constructed; a pass of the loop on an uninitialised filter sets it exactly when
  \<^verbatim>\<open>ValidLidarData\<close> has returned true; and over any call of \<^verbatim>\<open>Run\<close> it never goes back to
  false, while \<^verbatim>\<open>InitLocalization\<close> runs once if the flag goes from false to true during the
  call and not at all otherwise.
\<close>

theorem HasInited_terminal:
  "\<not> HasInited (spec_Filtering N) (FilteringFlow_new Filter_new) \<and>
   (\<not> HasInited (spec_Filtering N) s \<and> Run_body (spec_Filtering N) s = Some t \<longrightarrow>
      (HasInited (spec_Filtering N) t \<longleftrightarrow> (\<exists>s0. ValidLidarData s = Some (True, s0)))) \<and>
   (Run (spec_Filtering N) inp s = Some (b, s') \<longrightarrow>
      (HasInited (spec_Filtering N) s \<longrightarrow> HasInited (spec_Filtering N) s') \<and>
      inits (events s') =
        inits (events s) +
        (if \<not> HasInited (spec_Filtering N) s \<and> HasInited (spec_Filtering N) s' then 1 else 0))"
proof (intro conjI impI)
  show "\<not> HasInited (spec_Filtering N) (FilteringFlow_new Filter_new)"
    by (simp add: HasInited_def spec_Filtering_def FilteringFlow_new_def Filter_new_def)
next
  assume a: "\<not> HasInited (spec_Filtering N) s \<and> Run_body (spec_Filtering N) s = Some t"
  with spec_Run_body[of N s t]
  show "HasInited (spec_Filtering N) t \<longleftrightarrow> (\<exists>s0. ValidLidarData s = Some (True, s0))"
    by (auto split: if_splits)
next
  assume "Run (spec_Filtering N) inp s = Some (b, s')"
  from spec_Run[OF this]
  show "HasInited (spec_Filtering N) s \<Longrightarrow> HasInited (spec_Filtering N) s'"
    and "inits (events s') =
        inits (events s) +
        (if \<not> HasInited (spec_Filtering N) s \<and> HasInited (spec_Filtering N) s' then 1 else 0)"
    by simp_all
qed

theorem HasInited_terminal_witness:
  "\<not> HasInited (spec_Filtering (still None True)) (FilteringFlow_new Filter_new) \<and>
   HasInited (spec_Filtering (still None True)) running_flow \<and>
   inits (events running_flow) = 1 \<and>
   \<not> HasInited (spec_Filtering (still None True))
       ((triple_flow 1 0.5 1)
          \<lparr>current_cloud_data := cloud_at 1, current_gnss_data := gnss_at 0.5,
            current_imu_synced_data := imu_at 1, gnss_data_buff := []\<rparr>)"
  using HasInited_terminal
    [where N="still None True" and s="FilteringFlow_new Filter_new" and inp=first_tick
       and b=True and s'=running_flow]
    HasInited_terminal
    [where N="still None True" and s="triple_flow 1 0.5 1" and
       t="(triple_flow 1 0.5 1)
          \<lparr>current_cloud_data := cloud_at 1, current_gnss_data := gnss_at 0.5,
            current_imu_synced_data := imu_at 1, gnss_data_buff := []\<rparr>"]
    first_tick_run
  by (simp add: sample_defs flow_defs inits_def triple_flow_def)

text \<open>
  C4 fails on the code. The raw inertial buffer holds the samples at 1.0, 1.1 and 1.2 s, in
  order, and the triple at 0.95 s is valid. The inner loop pops the sample at 1.0 s, which
  is not older than the triple, and the flow puts it back with \<^verbatim>\<open>push_back\<close>: it re-enters
  behind the samples at 1.1 and 1.2 s, and the buffer is no longer in timestamp order.
\<close>

theorem push_back_reorders_raw_buffer:
  "sorted (map time (imu_raw_data_buff late_triple_flow)) \<and>
   map_option fst (ValidLidarData late_triple_flow) = Some True \<and>
   map_option imu_raw_data_buff
     (propagate_and_correct (spec_Filtering (still None True))
        (snd (the (ValidLidarData late_triple_flow)))) =
     Some [imu_at 1.1, imu_at 1.2, imu_at 1] \<and>
   map_option imu_raw_data_buff
     (Run_body (spec_Filtering (still None True)) late_triple_flow) =
     Some [imu_at 1.2, imu_at 1]"
  by (simp add: late_triple_flow_def sample_defs flow_defs)

text \<open>
  C3 fails on the code, by the same \<^verbatim>\<open>push_back\<close>. One tick brings the raw samples at
  1.0, 1.1 and 1.2 s and the triples at 0.95 and 1.05 s, each stream in order. When the
  triple at 1.05 s is consumed the sample at 1.0 s is still buffered, behind the one at
  1.2 s: \<^verbatim>\<open>Correct\<close> runs without it, and the \<^verbatim>\<open>Update\<close> that comes after is rejected by the
  filter, whose clock is at 1.1 s by then.
\<close>

theorem older_sample_propagated_after_Correct:
  "map_option (filter is_filter_call \<circ> events \<circ> snd)
     (Run (spec_Filtering (still None True)) second_tick running_flow) =
     Some [CorrectCalled (imu_at 0.95) (cloud_at 0.95) True,
           UpdateCalled (imu_at 1.1) True,
           CorrectCalled (imu_at 1.05) (cloud_at 1.05) True,
           UpdateCalled (imu_at 1) False,
           UpdateCalled (imu_at 1.2) True]"
  by (simp add: second_tick_def sample_defs flow_defs)

end
